theory Spec2Isabelle
  imports Complex_Main "HOL-Library.Multiset"
begin

section \<open>Cucina Recipe Organizer: unit conversion and inventory deduction\<close>

text \<open>
  A shallow embedding of \<^verbatim>\<open>lib/conversions.ts\<close>: \<^verbatim>\<open>convertMeasurement\<close>,
  \<^verbatim>\<open>getTotalInventoryInUnit\<close>, \<^verbatim>\<open>hasEnoughInventory\<close> and
  \<^verbatim>\<open>deductFromInventory\<close>, with the interfaces of \<^verbatim>\<open>types/index.ts\<close> they take.

  A result \<^verbatim>\<open>number | null\<close> is a \<^typ>\<open>real option\<close>, \<open>None\<close> for \<^verbatim>\<open>null\<close>.
  Identifiers are strings, compared by \<^verbatim>\<open>===\<close>, which is equality.
\<close>

subsection \<open>Numbers\<close>

text \<open>
  A TypeScript \<^verbatim>\<open>number\<close> is an IEEE 754 double. A double that is neither
  \<^verbatim>\<open>NaN\<close> nor an infinity is a real number, and that real is its value here;
  \<^verbatim>\<open>NaN\<close>, the infinities and overflow are outside the model. On such values
  \<^verbatim>\<open><=\<close>, \<^verbatim>\<open>>\<close>, \<^verbatim>\<open>>=\<close>, \<^verbatim>\<open>!==\<close> and \<^verbatim>\<open>Math.min\<close> are exact, so they are
  the comparisons and \<open>min\<close> of the reals. The operations \<^verbatim>\<open>*\<close>, \<^verbatim>\<open>+\<close> and \<^verbatim>\<open>-\<close>
  round their result to a double: they are the engine's, and the model takes them as the
  parameter \<open>ar\<close> wherever the code computes with them. No property below depends on how
  they round unless it says so.
\<close>

record Arith =
  fmul :: "real \<Rightarrow> real \<Rightarrow> real"
  fadd :: "real \<Rightarrow> real \<Rightarrow> real"
  fsub :: "real \<Rightarrow> real \<Rightarrow> real"

text \<open>
  The arithmetic that does not round. It is the doubles' arithmetic on every operation
  whose exact result is a double; the runs evaluated in this file use only such
  operations (small integers and multiples of powers of two).
\<close>

definition exact_arith :: Arith where
  "exact_arith = \<lparr>fmul = (\<lambda>x y. x * y), fadd = (\<lambda>x y. x + y), fsub = (\<lambda>x y. x - y)\<rparr>"

text \<open>
  The literal \<^verbatim>\<open>0.001\<close> of \<^verbatim>\<open>deductFromInventory\<close> is the double nearest to one
  thousandth, which is \<open>1152921504606847 / 2 ^ 60\<close>, slightly above \<open>1 / 1000\<close>.
  The literals \<^verbatim>\<open>0\<close> and \<^verbatim>\<open>-1\<close> are the reals \<open>0\<close> and \<open>-1\<close>.
\<close>

definition threshold :: real where
  "threshold = 1152921504606847 / 1152921504606846976"

subsection \<open>Data model (types/index.ts)\<close>

record MeasurementConversion =
  toMeasurementId :: string
  factor :: real

text \<open>The field \<^verbatim>\<open>id\<close> of \<^verbatim>\<open>Measurement\<close> is \<open>id_m\<close> here (\<open>id\<close> is the identity of HOL).\<close>

record Measurement =
  id_m :: string
  name :: string
  conversions :: "MeasurementConversion list"

record InventoryItem =
  userId :: string
  ingredientId :: string
  quantity :: real
  measurementId :: string

text \<open>An entry \<^verbatim>\<open>{ measurementId, quantity }\<close> of \<^verbatim>\<open>deducted\<close>.\<close>

type_synonym deducted_line = "string \<times> real"

subsection \<open>convertMeasurement\<close>

text \<open>
  \<^verbatim>\<open>Array.prototype.find\<close> returns the first element that satisfies the predicate, or
  \<^verbatim>\<open>undefined\<close>: it is \<^const>\<open>List.find\<close>. An object is truthy, so
  \<^verbatim>\<open>if (!fromMeasurement)\<close> and \<^verbatim>\<open>if (directConversion)\<close> test for \<open>None\<close>.
\<close>

definition convertMeasurement ::
  "Arith \<Rightarrow> string \<Rightarrow> string \<Rightarrow> real \<Rightarrow> Measurement list \<Rightarrow> real option" where
  "convertMeasurement ar fromMeasurementId toMeasurementId' quantity' measurements =
     (if fromMeasurementId = toMeasurementId' then Some quantity'
      else case List.find (\<lambda>m. id_m m = fromMeasurementId) measurements of
             None \<Rightarrow> None
           | Some fromMeasurement \<Rightarrow>
               (case List.find (\<lambda>c. toMeasurementId c = toMeasurementId')
                       (conversions fromMeasurement) of
                  Some directConversion \<Rightarrow> Some (fmul ar quantity' (factor directConversion))
                | None \<Rightarrow> None))"

subsection \<open>getTotalInventoryInUnit\<close>

text \<open>
  The \<^verbatim>\<open>for\<close> loop over \<^verbatim>\<open>inventoryItems\<close>, with the running \<^verbatim>\<open>total\<close>
  (\<open>total'\<close> here: \<open>total\<close> is a constant of HOL).
\<close>

fun total_loop ::
  "Arith \<Rightarrow> string \<Rightarrow> Measurement list \<Rightarrow> InventoryItem list \<Rightarrow> real \<Rightarrow> real" where
  "total_loop ar targetMeasurementId measurements [] total' = total'"
| "total_loop ar targetMeasurementId measurements (item # rest) total' =
     (case convertMeasurement ar (measurementId item) targetMeasurementId (quantity item)
             measurements of
        Some converted \<Rightarrow>
          total_loop ar targetMeasurementId measurements rest (fadd ar total' converted)
      | None \<Rightarrow> total_loop ar targetMeasurementId measurements rest total')"

definition getTotalInventoryInUnit ::
  "Arith \<Rightarrow> string \<Rightarrow> string \<Rightarrow> InventoryItem list \<Rightarrow> Measurement list \<Rightarrow> real" where
  "getTotalInventoryInUnit ar ingredientId' targetMeasurementId inventory measurements =
     (let inventoryItems = filter (\<lambda>item. ingredientId item = ingredientId') inventory
      in total_loop ar targetMeasurementId measurements inventoryItems 0)"

subsection \<open>hasEnoughInventory\<close>

record Availability =
  hasEnough :: bool
  available :: real

definition hasEnoughInventory ::
  "Arith \<Rightarrow> string \<Rightarrow> string \<Rightarrow> real \<Rightarrow> InventoryItem list \<Rightarrow> Measurement list \<Rightarrow>
   Availability" where
  "hasEnoughInventory ar ingredientId' requiredMeasurementId requiredQuantity inventory
       measurements =
     (let totalAvailable =
            getTotalInventoryInUnit ar ingredientId' requiredMeasurementId inventory
              measurements
      in \<lparr>hasEnough = (totalAvailable \<ge> requiredQuantity), available = totalAvailable\<rparr>)"

subsection \<open>deductFromInventory\<close>

text \<open>
  The comparator handed to \<^verbatim>\<open>sort\<close>; the elements are the pairs
  \<^verbatim>\<open>{ item, index }\<close>.
\<close>

definition compareItems ::
  "string \<Rightarrow> InventoryItem \<times> nat \<Rightarrow> InventoryItem \<times> nat \<Rightarrow> int" where
  "compareItems requiredMeasurementId a b =
     (if measurementId (fst a) = requiredMeasurementId then -1
      else if measurementId (fst b) = requiredMeasurementId then 1
      else 0)"

text \<open>
  The body of the \<^verbatim>\<open>for\<close> loop over \<^verbatim>\<open>sortedItems\<close>. The state is the three
  variables the loop assigns: \<^verbatim>\<open>updatedInventory\<close>, \<^verbatim>\<open>deducted\<close> and
  \<^verbatim>\<open>remainingToDeduct\<close>. \<^verbatim>\<open>break\<close> returns the state, \<^verbatim>\<open>continue\<close> goes on
  with the state unchanged. The loop reads \<^verbatim>\<open>item\<close> from the pair, not from
  \<^verbatim>\<open>updatedInventory\<close>. Every \<^verbatim>\<open>index\<close> comes from the inventory itself, so
  the assignment \<^verbatim>\<open>updatedInventory[index] = ...\<close> is always in range and is the list
  update. The two subtractions are the engine's; the test of \<^verbatim>\<open>newQuantity\<close> is
  against the double \<^verbatim>\<open>0.001\<close>.
\<close>

fun deduct_loop ::
  "Arith \<Rightarrow> string \<Rightarrow> Measurement list \<Rightarrow> (InventoryItem \<times> nat) list \<Rightarrow>
   InventoryItem list \<times> deducted_line list \<times> real \<Rightarrow>
   InventoryItem list \<times> deducted_line list \<times> real" where
  "deduct_loop ar requiredMeasurementId measurements []
       (updatedInventory, deducted, remainingToDeduct) =
     (updatedInventory, deducted, remainingToDeduct)"
| "deduct_loop ar requiredMeasurementId measurements ((item, index) # rest)
       (updatedInventory, deducted, remainingToDeduct) =
     (if remainingToDeduct \<le> 0 then (updatedInventory, deducted, remainingToDeduct)
      else case convertMeasurement ar requiredMeasurementId (measurementId item)
                  remainingToDeduct measurements of
        None \<Rightarrow>
          deduct_loop ar requiredMeasurementId measurements rest
            (updatedInventory, deducted, remainingToDeduct)
      | Some amountInItemUnit \<Rightarrow>
          (let toDeduct = min (quantity item) amountInItemUnit;
               newQuantity = fsub ar (quantity item) toDeduct;
               updatedInventory' =
                 (if newQuantity > threshold
                  then updatedInventory[index := item\<lparr>quantity := newQuantity\<rparr>]
                  else updatedInventory[index := item\<lparr>quantity := -1\<rparr>]);
               deducted' = deducted @ [(measurementId item, toDeduct)];
               remainingToDeduct' =
                 (case convertMeasurement ar (measurementId item) requiredMeasurementId
                         toDeduct measurements of
                    Some deductedInRequiredUnit \<Rightarrow>
                      fsub ar remainingToDeduct deductedInRequiredUnit
                  | None \<Rightarrow> remainingToDeduct)
           in deduct_loop ar requiredMeasurementId measurements rest
                (updatedInventory', deducted', remainingToDeduct')))"

text \<open>
  \<^verbatim>\<open>relevantItems\<close>: the inventory paired with its indices, filtered by user and
  ingredient.
\<close>

definition relevantItems ::
  "string \<Rightarrow> InventoryItem list \<Rightarrow> string \<Rightarrow> (InventoryItem \<times> nat) list" where
  "relevantItems ingredientId' inventory userId' =
     filter (\<lambda>(item, index). userId item = userId' \<and> ingredientId item = ingredientId')
       (zip inventory [0..<length inventory])"

text \<open>
  \<^verbatim>\<open>Array.prototype.sort\<close> belongs to the JavaScript engine, not to the repository.
  The comparator above answers \<open>-1\<close> for a record in the required unit against itself,
  so it is not a consistent comparator as soon as one candidate is in the required unit,
  and ECMAScript then leaves the order to the engine. The engine's sort is therefore the
  parameter \<open>srt\<close> of the model: \<open>srt cmp xs\<close> is \<^verbatim>\<open>xs.sort(cmp)\<close>.
\<close>

type_synonym sort_fn =
  "(InventoryItem \<times> nat \<Rightarrow> InventoryItem \<times> nat \<Rightarrow> int) \<Rightarrow>
   (InventoryItem \<times> nat) list \<Rightarrow> (InventoryItem \<times> nat) list"

definition sortedItems ::
  "sort_fn \<Rightarrow> string \<Rightarrow> string \<Rightarrow> InventoryItem list \<Rightarrow> string \<Rightarrow>
   (InventoryItem \<times> nat) list" where
  "sortedItems srt ingredientId' requiredMeasurementId inventory userId' =
     srt (compareItems requiredMeasurementId) (relevantItems ingredientId' inventory userId')"

text \<open>The state when the loop ends, before the final \<^verbatim>\<open>filter\<close>.\<close>

definition deduct_final ::
  "Arith \<Rightarrow> sort_fn \<Rightarrow> string \<Rightarrow> string \<Rightarrow> real \<Rightarrow> InventoryItem list \<Rightarrow>
   Measurement list \<Rightarrow> string \<Rightarrow> InventoryItem list \<times> deducted_line list \<times> real" where
  "deduct_final ar srt ingredientId' requiredMeasurementId requiredQuantity inventory
       measurements userId' =
     deduct_loop ar requiredMeasurementId measurements
       (sortedItems srt ingredientId' requiredMeasurementId inventory userId')
       (inventory, [], requiredQuantity)"

record DeductionResult =
  updatedInventory :: "InventoryItem list"
  deducted :: "deducted_line list"

definition deductFromInventory ::
  "Arith \<Rightarrow> sort_fn \<Rightarrow> string \<Rightarrow> string \<Rightarrow> real \<Rightarrow> InventoryItem list \<Rightarrow>
   Measurement list \<Rightarrow> string \<Rightarrow> DeductionResult" where
  "deductFromInventory ar srt ingredientId' requiredMeasurementId requiredQuantity inventory
       measurements userId' =
     (case deduct_final ar srt ingredientId' requiredMeasurementId requiredQuantity inventory
             measurements userId' of
        (marked, deducted', remainingToDeduct) \<Rightarrow>
          \<lparr>updatedInventory = filter (\<lambda>item. quantity item \<noteq> -1) marked,
           deducted = deducted'\<rparr>)"

subsection \<open>The engine's sort\<close>

text \<open>What every engine's sort does, whatever the comparator: it permutes its input.\<close>

definition sort_permutes :: "sort_fn \<Rightarrow> bool" where
  "sort_permutes srt \<longleftrightarrow> (\<forall>cmp xs. mset (srt cmp xs) = mset xs)"

text \<open>
  A stable insertion sort driven by the comparator, used where a concrete run is
  evaluated. It is not the algorithm of a particular engine: the comparator of
  \<open>compareItems\<close> answers \<open>-1\<close> for two candidates in the required unit whichever comes
  first, and engines differ in the order they leave such candidates in. Every run
  evaluated in this file holds at most one candidate in the required unit; there the
  comparator orders distinct candidates consistently and a stable sort has one result.
  The properties themselves are stated for an arbitrary sort \<open>srt\<close>.
\<close>

fun insert_by :: "('a \<Rightarrow> 'a \<Rightarrow> int) \<Rightarrow> 'a \<Rightarrow> 'a list \<Rightarrow> 'a list" where
  "insert_by cmp x [] = [x]"
| "insert_by cmp x (y # ys) =
     (if cmp x y \<le> 0 then x # y # ys else y # insert_by cmp x ys)"

definition sort_by :: "('a \<Rightarrow> 'a \<Rightarrow> int) \<Rightarrow> 'a list \<Rightarrow> 'a list" where
  "sort_by cmp xs = foldr (insert_by cmp) xs []"

subsection \<open>Notions used to state the properties\<close>

text \<open>A candidate: a record of the user and of the ingredient (the filter of \<open>relevantItems\<close>).\<close>

definition is_candidate :: "string \<Rightarrow> string \<Rightarrow> InventoryItem \<Rightarrow> bool" where
  "is_candidate userId' ingredientId' item \<longleftrightarrow>
     userId item = userId' \<and> ingredientId item = ingredientId'"

text \<open>
  What the loop body stores at \<^verbatim>\<open>updatedInventory[index]\<close> when it takes
  \<open>toDeduct\<close> from \<open>item\<close>: the reduced record, or the record marked for removal.
\<close>

definition mark_taken :: "Arith \<Rightarrow> InventoryItem \<Rightarrow> real \<Rightarrow> InventoryItem" where
  "mark_taken ar item toDeduct =
     (if fsub ar (quantity item) toDeduct > threshold
      then item\<lparr>quantity := fsub ar (quantity item) toDeduct\<rparr>
      else item\<lparr>quantity := -1\<rparr>)"

text \<open>
  The records the loop takes from, in the order it takes from them, each with the amount
  taken: the loop of \<open>deduct_loop\<close> with only \<^verbatim>\<open>remainingToDeduct\<close> kept. The lemmas
  \<open>deduct_loop_deducted\<close> and \<open>deduct_loop_marked\<close> below tie it to the loop.
\<close>

fun deduct_takes ::
  "Arith \<Rightarrow> string \<Rightarrow> Measurement list \<Rightarrow> (InventoryItem \<times> nat) list \<Rightarrow> real \<Rightarrow>
   ((InventoryItem \<times> nat) \<times> real) list" where
  "deduct_takes ar requiredMeasurementId measurements [] remainingToDeduct = []"
| "deduct_takes ar requiredMeasurementId measurements ((item, index) # rest)
       remainingToDeduct =
     (if remainingToDeduct \<le> 0 then []
      else case convertMeasurement ar requiredMeasurementId (measurementId item)
                  remainingToDeduct measurements of
        None \<Rightarrow> deduct_takes ar requiredMeasurementId measurements rest remainingToDeduct
      | Some amountInItemUnit \<Rightarrow>
          (let toDeduct = min (quantity item) amountInItemUnit
           in ((item, index), toDeduct) #
              deduct_takes ar requiredMeasurementId measurements rest
                (case convertMeasurement ar (measurementId item) requiredMeasurementId
                        toDeduct measurements of
                   Some deductedInRequiredUnit \<Rightarrow>
                     fsub ar remainingToDeduct deductedInRequiredUnit
                 | None \<Rightarrow> remainingToDeduct)))"

text \<open>
  What becomes of each position of the input inventory: \<open>None\<close> when the final
  \<^verbatim>\<open>filter\<close> drops the record there, the record kept otherwise. The result
  \<^verbatim>\<open>updatedInventory\<close> is the kept records in order (lemma \<open>updatedInventory_slots\<close>).
\<close>

definition result_slots ::
  "Arith \<Rightarrow> sort_fn \<Rightarrow> string \<Rightarrow> string \<Rightarrow> real \<Rightarrow> InventoryItem list \<Rightarrow>
   Measurement list \<Rightarrow> string \<Rightarrow> InventoryItem option list" where
  "result_slots ar srt ingredientId' requiredMeasurementId requiredQuantity inventory
       measurements userId' =
     map (\<lambda>item. if quantity item = -1 then None else Some item)
       (fst (deduct_final ar srt ingredientId' requiredMeasurementId requiredQuantity
               inventory measurements userId'))"

text \<open>
  The factor \<open>convertMeasurement\<close> applies between two different units: the factor of
  the first edge to the target that the first unit with the source id lists (lemma
  \<open>convert_factor\<close>).
\<close>

definition direct_factor :: "Measurement list \<Rightarrow> string \<Rightarrow> string \<Rightarrow> real option" where
  "direct_factor measurements fromMeasurementId toMeasurementId' =
     (case List.find (\<lambda>m. id_m m = fromMeasurementId) measurements of
        None \<Rightarrow> None
      | Some fromMeasurement \<Rightarrow>
          map_option factor
            (List.find (\<lambda>c. toMeasurementId c = toMeasurementId')
               (conversions fromMeasurement)))"

text \<open>
  The deducted lines expressed in the required unit, each by the code's own
  \<open>convertMeasurement\<close>, and summed; a line whose unit does not convert to the required
  unit adds nothing. The sum is the sum of the reals, not a rounded one: it belongs to the
  statement, the code never computes it.
\<close>

definition deducted_in_required ::
  "Arith \<Rightarrow> string \<Rightarrow> Measurement list \<Rightarrow> deducted_line list \<Rightarrow> real" where
  "deducted_in_required ar requiredMeasurementId measurements lines =
     sum_list (List.map_filter
       (\<lambda>(unit', taken). convertMeasurement ar unit' requiredMeasurementId taken measurements)
       lines)"

text \<open>
  The stock of the candidates expressed in the required unit, counted as
  \<open>getTotalInventoryInUnit\<close> counts stock: each record converted from its unit to the
  required unit, a record whose unit does not convert adding nothing.
\<close>

definition candidate_stock ::
  "Arith \<Rightarrow> string \<Rightarrow> string \<Rightarrow> string \<Rightarrow> InventoryItem list \<Rightarrow> Measurement list \<Rightarrow> real"
  where
  "candidate_stock ar userId' ingredientId' requiredMeasurementId inventory measurements =
     sum_list (List.map_filter
       (\<lambda>item. convertMeasurement ar (measurementId item) requiredMeasurementId
                 (quantity item) measurements)
       (filter (is_candidate userId' ingredientId') inventory))"

text \<open>The same for one record.\<close>

definition worth :: "Arith \<Rightarrow> string \<Rightarrow> Measurement list \<Rightarrow> InventoryItem \<Rightarrow> real" where
  "worth ar R ms item =
     (case convertMeasurement ar (measurementId item) R (quantity item) ms of
        Some v \<Rightarrow> v | None \<Rightarrow> 0)"

text \<open>The sum of the lines the loop produces from a list of candidates and a quantity still to deduct.\<close>

definition taken_in_required ::
  "Arith \<Rightarrow> string \<Rightarrow> Measurement list \<Rightarrow> (InventoryItem \<times> nat) list \<Rightarrow> real \<Rightarrow> real" where
  "taken_in_required ar R ms xs rem =
     deducted_in_required ar R ms
       (map (\<lambda>((item, index), t). (measurementId item, t)) (deduct_takes ar R ms xs rem))"

text \<open>
  What the bounds on the amount deducted ask of the arithmetic, with \<open>u\<close> the unit
  roundoff and \<open>\<eta>\<close> the largest error of a product that underflows: a product is
  within \<open>u\<close> times the exact product, plus \<open>\<eta>\<close>, of the exact product; a
  difference is within \<open>u\<close> times the exact difference of it; subtracting a
  non-negative number gives no more than the number subtracted from; a product of
  non-negative numbers is not negative; multiplying by a non-negative number is monotone.
  Doubles rounded to nearest satisfy this with \<open>u\<close> the power -53 of 2 and \<open>\<eta>\<close> the
  power -1075 of 2, as long as no product overflows: rounding is monotone and leaves a
  double unchanged, and a difference of doubles too small to be a normal double is exact.
  The conditions are stated for all reals, of which the code meets only doubles. The
  arithmetic that does not round satisfies them with \<open>u = 0\<close> and \<open>\<eta> = 0\<close> (lemma
  \<open>exact_rounding_model\<close>).
\<close>

definition rounding_model :: "Arith \<Rightarrow> real \<Rightarrow> real \<Rightarrow> bool" where
  "rounding_model ar u \<eta> \<longleftrightarrow>
     0 \<le> u \<and> u \<le> 1 / 2 \<and> 0 \<le> \<eta> \<and>
     (\<forall>x y. \<bar>fmul ar x y - x * y\<bar> \<le> u * \<bar>x * y\<bar> + \<eta>) \<and>
     (\<forall>x y. \<bar>fsub ar x y - (x - y)\<bar> \<le> u * \<bar>x - y\<bar>) \<and>
     (\<forall>x y. 0 \<le> y \<longrightarrow> fsub ar x y \<le> x) \<and>
     (\<forall>x y. 0 \<le> x \<and> 0 \<le> y \<longrightarrow> 0 \<le> fmul ar x y) \<and>
     (\<forall>x y z. x \<le> y \<and> 0 \<le> z \<longrightarrow> fmul ar x z \<le> fmul ar y z)"

text \<open>
  The round trip from the required unit to a unit and back multiplies by at most \<open>P\<close>:
  when the required unit converts to the unit with factor \<open>f\<close> and the unit converts to
  the required unit with factor \<open>g\<close>, neither is negative, \<open>g\<close> is at most \<open>G\<close> and
  \<open>f * g\<close> is at most \<open>P\<close>. Nothing is asked when one of the two edges is missing.
\<close>

definition round_trip_at_most ::
  "Measurement list \<Rightarrow> string \<Rightarrow> real \<Rightarrow> real \<Rightarrow> string \<Rightarrow> bool" where
  "round_trip_at_most measurements requiredMeasurementId P G unit' \<longleftrightarrow>
     (case direct_factor measurements requiredMeasurementId unit' of
        None \<Rightarrow> True
      | Some f \<Rightarrow>
          (case direct_factor measurements unit' requiredMeasurementId of
             None \<Rightarrow> True
           | Some g \<Rightarrow> 0 \<le> f \<and> 0 \<le> g \<and> g \<le> G \<and> f * g \<le> P))"

text \<open>
  The round trip multiplies by at least \<open>p\<close>: when the unit converts to the required
  unit with factor \<open>g\<close>, the required unit converts to the unit, with a factor \<open>f\<close>;
  neither is negative, \<open>g\<close> is at most \<open>G\<close> and \<open>f * g\<close> is at least \<open>p\<close>. Nothing is
  asked of a unit that does not convert to the required unit.
\<close>

definition round_trip_at_least ::
  "Measurement list \<Rightarrow> string \<Rightarrow> real \<Rightarrow> real \<Rightarrow> string \<Rightarrow> bool" where
  "round_trip_at_least measurements requiredMeasurementId p G unit' \<longleftrightarrow>
     (case direct_factor measurements unit' requiredMeasurementId of
        None \<Rightarrow> True
      | Some g \<Rightarrow>
          (case direct_factor measurements requiredMeasurementId unit' of
             None \<Rightarrow> False
           | Some f \<Rightarrow> 0 \<le> f \<and> 0 \<le> g \<and> g \<le> G \<and> p \<le> f * g))"

subsection \<open>Example data\<close>

text \<open>
  Catalogs: a chain A \<rightarrow> B \<rightarrow> C with no edge A \<rightarrow> C; cups and tablespoons converting both
  ways, and pieces converting to nothing; a unit that lists two conversions to the same
  target; a unit that lists two conversions to itself; tablespoons converting to cups but
  not back; cups and mugs whose factors multiply to 2, and to one half. Inventories:
  \<open>pantry\<close> has no record of quantity \<open>-1\<close>, \<open>ledger\<close> has one, owned by another user;
  the record of \<open>brink\<close> holds twice the double \<^verbatim>\<open>0.001\<close>. Every quantity and factor is
  a double, and the runs evaluated on them go through doubles only.
\<close>

definition chain_units :: "Measurement list" where
  "chain_units =
     [\<lparr>id_m = ''A'', name = ''a'', conversions = [\<lparr>toMeasurementId = ''B'', factor = 2\<rparr>]\<rparr>,
      \<lparr>id_m = ''B'', name = ''b'', conversions = [\<lparr>toMeasurementId = ''C'', factor = 3\<rparr>]\<rparr>,
      \<lparr>id_m = ''C'', name = ''c'', conversions = []\<rparr>]"

definition kitchen_units :: "Measurement list" where
  "kitchen_units =
     [\<lparr>id_m = ''cup'', name = ''Cup'', conversions = [\<lparr>toMeasurementId = ''tbsp'', factor = 16\<rparr>]\<rparr>,
      \<lparr>id_m = ''tbsp'', name = ''Tablespoon'',
        conversions = [\<lparr>toMeasurementId = ''cup'', factor = 1 / 16\<rparr>]\<rparr>,
      \<lparr>id_m = ''piece'', name = ''Piece'', conversions = []\<rparr>]"

definition dup_units :: "Measurement list" where
  "dup_units =
     [\<lparr>id_m = ''cup'', name = ''Cup'',
        conversions = [\<lparr>toMeasurementId = ''tbsp'', factor = 16\<rparr>,
                       \<lparr>toMeasurementId = ''tbsp'', factor = 20\<rparr>]\<rparr>]"

definition self_units :: "Measurement list" where
  "self_units =
     [\<lparr>id_m = ''cup'', name = ''Cup'',
        conversions = [\<lparr>toMeasurementId = ''cup'', factor = 2\<rparr>,
                       \<lparr>toMeasurementId = ''cup'', factor = 3\<rparr>]\<rparr>]"

definition one_way_units :: "Measurement list" where
  "one_way_units =
     [\<lparr>id_m = ''tbsp'', name = ''Tablespoon'',
        conversions = [\<lparr>toMeasurementId = ''cup'', factor = 1 / 16\<rparr>]\<rparr>,
      \<lparr>id_m = ''cup'', name = ''Cup'', conversions = []\<rparr>]"

definition skewed_units :: "Measurement list" where
  "skewed_units =
     [\<lparr>id_m = ''cup'', name = ''Cup'', conversions = [\<lparr>toMeasurementId = ''mug'', factor = 2\<rparr>]\<rparr>,
      \<lparr>id_m = ''mug'', name = ''Mug'', conversions = [\<lparr>toMeasurementId = ''cup'', factor = 1\<rparr>]\<rparr>]"

definition lossy_units :: "Measurement list" where
  "lossy_units =
     [\<lparr>id_m = ''cup'', name = ''Cup'', conversions = [\<lparr>toMeasurementId = ''mug'', factor = 1\<rparr>]\<rparr>,
      \<lparr>id_m = ''mug'', name = ''Mug'',
        conversions = [\<lparr>toMeasurementId = ''cup'', factor = 1 / 2\<rparr>]\<rparr>]"

definition pantry :: "InventoryItem list" where
  "pantry =
     [\<lparr>userId = ''u1'', ingredientId = ''flour'', quantity = 1, measurementId = ''cup''\<rparr>,
      \<lparr>userId = ''u2'', ingredientId = ''flour'', quantity = 8, measurementId = ''tbsp''\<rparr>,
      \<lparr>userId = ''u1'', ingredientId = ''flour'', quantity = 3, measurementId = ''piece''\<rparr>,
      \<lparr>userId = ''u1'', ingredientId = ''sugar'', quantity = 5, measurementId = ''cup''\<rparr>]"

definition ledger :: "InventoryItem list" where
  "ledger =
     [\<lparr>userId = ''u2'', ingredientId = ''sugar'', quantity = -1, measurementId = ''cup''\<rparr>,
      \<lparr>userId = ''u1'', ingredientId = ''flour'', quantity = 4097 / 2048, measurementId = ''cup''\<rparr>,
      \<lparr>userId = ''u1'', ingredientId = ''flour'', quantity = 3, measurementId = ''piece''\<rparr>,
      \<lparr>userId = ''u1'', ingredientId = ''flour'', quantity = 65 / 8, measurementId = ''tbsp''\<rparr>]"

definition brink :: "InventoryItem list" where
  "brink =
     [\<lparr>userId = ''u1'', ingredientId = ''flour'',
       quantity = 1152921504606847 / 576460752303423488, measurementId = ''cup''\<rparr>]"

definition jar :: "InventoryItem list" where
  "jar = [\<lparr>userId = ''u1'', ingredientId = ''flour'', quantity = 16, measurementId = ''tbsp''\<rparr>]"

definition crate :: "InventoryItem list" where
  "crate = [\<lparr>userId = ''u1'', ingredientId = ''flour'', quantity = 10, measurementId = ''mug''\<rparr>]"

text \<open>
  An arithmetic that rounds: every product comes out larger in size by the relative
  amount \<open>u\<close>, every difference smaller when it is positive and larger in size when it
  is negative. It is not the arithmetic of the doubles; it meets \<open>rounding_model\<close> (lemma
  \<open>biased_rounding_model\<close>) and serves to run the bounds where rounding occurs.
\<close>

definition biased_arith :: "real \<Rightarrow> Arith" where
  "biased_arith u =
     \<lparr>fmul = (\<lambda>x y. x * y * (1 + u)),
      fadd = (\<lambda>x y. x + y),
      fsub = (\<lambda>x y. if y \<le> x then (x - y) * (1 - u) else (x - y) * (1 + u))\<rparr>"

section \<open>Auxiliary lemmas\<close>

subsection \<open>Lists, the reference sort, conversion\<close>

lemma find_None_set: "List.find P xs = None \<longleftrightarrow> (\<forall>x\<in>set xs. \<not> P x)"
  by (induction xs) auto

lemma find_Some_mem: "List.find P xs = Some x \<Longrightarrow> x \<in> set xs \<and> P x"
  by (induction xs) (auto split: if_splits)

lemma find_filter_hd: "filter P xs = c # rest \<Longrightarrow> List.find P xs = Some c"
  by (induction xs) (auto split: if_splits)

lemma map_filter_None: "(\<forall>x\<in>set xs. f x = None) \<Longrightarrow> List.map_filter f xs = []"
  by (induction xs) (auto simp: List.map_filter_simps)

lemma map_filter_slots:
  "List.map_filter id (map (\<lambda>x. if P x then None else Some x) xs) = filter (\<lambda>x. \<not> P x) xs"
  by (induction xs) (simp_all add: List.map_filter_simps)

lemma slot_kept_mem:
  "i < length slots \<Longrightarrow> slots ! i = Some r \<Longrightarrow> r \<in> set (List.map_filter id slots)"
proof -
  assume "i < length slots" "slots ! i = Some r"
  then have "Some r \<in> set slots" by (metis nth_mem)
  then have "the (Some r) \<in> (\<lambda>x. the x) ` {x \<in> set slots. x \<noteq> None}" by blast
  then show ?thesis by (simp add: List.map_filter_def o_def)
qed

lemma map_fst_filter_zip:
  "length xs = length ys \<Longrightarrow> map fst (filter (\<lambda>(x, y). P x) (zip xs ys)) = filter P xs"
  by (induction xs ys rule: list_induct2) simp_all

lemma mset_insert_by: "mset (insert_by cmp x xs) = add_mset x (mset xs)"
  by (induction xs) simp_all

lemma mset_sort_by: "mset (sort_by cmp xs) = mset xs"
  unfolding sort_by_def by (induction xs) (simp_all add: mset_insert_by)

lemma sort_by_permutes: "sort_permutes sort_by"
  by (simp add: sort_permutes_def mset_sort_by)

lemma convertMeasurement_None_any:
  "convertMeasurement ar s t q ms = None \<Longrightarrow> convertMeasurement ar s t q' ms = None"
  by (auto simp: convertMeasurement_def split: if_splits option.splits)

lemma sum_list_map_filter:
  "sum_list (List.map_filter h xs) =
     sum_list (map (\<lambda>x. case h x of Some v \<Rightarrow> v | None \<Rightarrow> (0::real)) xs)"
  by (induction xs) (simp_all add: List.map_filter_simps split: option.splits)

lemma sum_list_map_perm:
  fixes f :: "'a \<Rightarrow> real"
  assumes "mset xs = mset ys"
  shows "sum_list (map f xs) = sum_list (map f ys)"
proof -
  have "sum_mset (mset (map f xs)) = sum_mset (mset (map f ys))"
    using assms by simp
  then show ?thesis by (simp only: sum_mset_sum_list)
qed

lemma convert_same: "convertMeasurement ar s s q ms = Some q"
  by (simp add: convertMeasurement_def)

lemma convert_factor:
  "s \<noteq> t \<Longrightarrow>
   convertMeasurement ar s t q ms = map_option (fmul ar q) (direct_factor ms s t)"
  by (simp add: convertMeasurement_def direct_factor_def split: option.splits)

lemma threshold_pos: "0 < threshold"
  by (simp add: threshold_def)

lemma threshold_double: "threshold = 1152921504606847 / 2 ^ 60 \<and> 1 / 1000 < threshold"
  by (simp add: threshold_def)

lemma total_loop_foldl:
  "total_loop ar t ms xs acc =
     foldl (fadd ar) acc
       (List.map_filter (\<lambda>r. convertMeasurement ar (measurementId r) t (quantity r) ms) xs)"
  by (induction xs arbitrary: acc) (simp_all add: List.map_filter_simps split: option.splits)

lemma getTotal_foldl:
  "getTotalInventoryInUnit ar ing t inventory ms =
     foldl (fadd ar) 0
       (List.map_filter (\<lambda>r. convertMeasurement ar (measurementId r) t (quantity r) ms)
          (filter (\<lambda>r. ingredientId r = ing) inventory))"
  by (simp add: getTotalInventoryInUnit_def total_loop_foldl)

lemma foldl_plus_sum_list: "foldl (\<lambda>x y. x + y) a xs = a + sum_list (xs :: real list)"
  by (induction xs arbitrary: a) simp_all

lemma nonneg_kept:
  "\<forall>r\<in>set inventory. 0 \<le> quantity r \<Longrightarrow> filter (\<lambda>r. quantity r \<noteq> -1) inventory = inventory"
  by (induction inventory) auto

subsection \<open>The deduction loop and the records it takes from\<close>

lemma deduct_loop_Cons:
  "deduct_loop ar R ms ((item, index) # rest) (arr, ded, rem) =
     (if rem \<le> 0 then (arr, ded, rem)
      else case convertMeasurement ar R (measurementId item) rem ms of
        None \<Rightarrow> deduct_loop ar R ms rest (arr, ded, rem)
      | Some amt \<Rightarrow>
          deduct_loop ar R ms rest
            (arr[index := mark_taken ar item (min (quantity item) amt)],
             ded @ [(measurementId item, min (quantity item) amt)],
             (case convertMeasurement ar (measurementId item) R (min (quantity item) amt) ms of
                Some d \<Rightarrow> fsub ar rem d | None \<Rightarrow> rem)))"
  by (auto simp add: Let_def mark_taken_def split: option.splits)

lemma deduct_loop_deducted:
  "fst (snd (deduct_loop ar R ms xs (arr, ded, rem))) =
     ded @ map (\<lambda>((item, index), t). (measurementId item, t)) (deduct_takes ar R ms xs rem)"
proof (induction xs arbitrary: arr ded rem)
  case Nil
  show ?case by simp
next
  case (Cons x xs)
  obtain item index where x: "x = (item, index)" by (cases x)
  show ?case unfolding x deduct_loop_Cons
    by (simp add: Cons.IH Let_def split: option.splits)
qed

lemma deduct_loop_marked:
  "fst (deduct_loop ar R ms xs (arr, ded, rem)) =
     fold (\<lambda>((item, index), t) a. a[index := mark_taken ar item t]) (deduct_takes ar R ms xs rem) arr"
proof (induction xs arbitrary: arr ded rem)
  case Nil
  show ?case by simp
next
  case (Cons x xs)
  obtain item index where x: "x = (item, index)" by (cases x)
  show ?case unfolding x deduct_loop_Cons
    by (simp add: Cons.IH Let_def split: option.splits)
qed

lemma deduct_takes_nonpos: "rem \<le> 0 \<Longrightarrow> deduct_takes ar R ms xs rem = []"
  by (cases xs) auto

lemma deduct_takes_mem: "(x, t) \<in> set (deduct_takes ar R ms xs rem) \<Longrightarrow> x \<in> set xs"
proof (induction xs arbitrary: rem)
  case Nil
  then show ?case by simp
next
  case (Cons y ys)
  obtain item index where y: "y = (item, index)" by (cases y)
  show ?case using Cons.prems Cons.IH unfolding y
    by (auto simp add: Let_def split: option.splits if_splits)
qed

lemma deduct_takes_distinct:
  "distinct (map snd xs) \<Longrightarrow> distinct (map (\<lambda>x. snd (fst x)) (deduct_takes ar R ms xs rem))"
proof (induction xs arbitrary: rem)
  case Nil
  then show ?case by simp
next
  case (Cons y ys)
  obtain item index where y: "y = (item, index)" by (cases y)
  have fresh: "index \<notin> (\<lambda>x. snd (fst x)) ` set (deduct_takes ar R ms ys r)" for r
  proof
    assume "index \<in> (\<lambda>x. snd (fst x)) ` set (deduct_takes ar R ms ys r)"
    then obtain x t where "(x, t) \<in> set (deduct_takes ar R ms ys r)" "snd x = index" by auto
    then have "x \<in> set ys" "snd x = index" by (auto dest: deduct_takes_mem)
    then show False using Cons.prems unfolding y by force
  qed
  have "distinct (map snd ys)" using Cons.prems by simp
  then have ih: "distinct (map (\<lambda>x. snd (fst x)) (deduct_takes ar R ms ys r))" for r by (rule Cons.IH)
  show ?case unfolding y using fresh ih
    by (simp add: Let_def split: option.splits)
qed

lemma deduct_takes_convertible:
  "((item, i), t) \<in> set (deduct_takes ar R ms xs rem) \<Longrightarrow>
   convertMeasurement ar R (measurementId item) q' ms \<noteq> None"
proof (induction xs arbitrary: rem)
  case Nil
  then show ?case by simp
next
  case (Cons y ys)
  obtain item' index where y: "y = (item', index)" by (cases y)
  show ?case
  proof (cases "convertMeasurement ar R (measurementId item') rem ms")
    case None
    then show ?thesis using Cons.prems Cons.IH unfolding y
      by (auto split: if_splits)
  next
    case (Some amt)
    have head: "convertMeasurement ar R (measurementId item') q' ms \<noteq> None"
      using Some convertMeasurement_None_any[of ar R "measurementId item'" q' ms rem] by auto
    show ?thesis using Cons.prems Cons.IH head Some unfolding y
      by (auto simp add: Let_def split: if_splits)
  qed
qed

lemma relevantItems_mem:
  "(item, i) \<in> set (relevantItems ing inventory uid) \<longleftrightarrow>
     i < length inventory \<and> item = inventory ! i \<and> is_candidate uid ing item"
  by (auto simp: relevantItems_def is_candidate_def set_zip)

lemma relevantItems_distinct: "distinct (map snd (relevantItems ing inventory uid))"
  unfolding relevantItems_def by (rule distinct_map_filter) simp

lemma relevantItems_fst:
  "map fst (relevantItems ing inventory uid) = filter (is_candidate uid ing) inventory"
proof -
  have "map fst (filter (\<lambda>(item, index). is_candidate uid ing item)
          (zip inventory [0..<length inventory])) = filter (is_candidate uid ing) inventory"
    by (rule map_fst_filter_zip) simp
  then show ?thesis by (simp add: relevantItems_def is_candidate_def)
qed

lemma sortedItems_set:
  assumes "sort_permutes srt"
  shows "set (sortedItems srt ing R inventory uid) = set (relevantItems ing inventory uid)"
  using assms unfolding sort_permutes_def sortedItems_def by (metis mset_eq_setD)

lemma sortedItems_distinct:
  assumes "sort_permutes srt"
  shows "distinct (map snd (sortedItems srt ing R inventory uid))"
proof -
  have "mset (map snd (sortedItems srt ing R inventory uid)) =
        mset (map snd (relevantItems ing inventory uid))"
    using assms unfolding sort_permutes_def sortedItems_def by simp
  then show ?thesis using relevantItems_distinct by (metis mset_eq_imp_distinct_iff)
qed

lemma sortedItems_no_candidate:
  assumes "sort_permutes srt" and "\<forall>r\<in>set inventory. \<not> is_candidate uid ing r"
  shows "sortedItems srt ing R inventory uid = []"
proof -
  have "relevantItems ing inventory uid = []"
  proof (cases "relevantItems ing inventory uid")
    case Nil
    then show ?thesis .
  next
    case (Cons p ps)
    obtain item i where p: "p = (item, i)" by (cases p)
    have "(item, i) \<in> set (relevantItems ing inventory uid)" unfolding Cons p by simp
    then have "i < length inventory" "is_candidate uid ing (inventory ! i)"
      unfolding relevantItems_mem by blast+
    then have False using assms(2) by (meson nth_mem)
    then show ?thesis ..
  qed
  then have "mset (sortedItems srt ing R inventory uid) = {#}"
    using assms(1) by (simp add: sortedItems_def sort_permutes_def)
  then show ?thesis by simp
qed

lemma fold_mark_length:
  "length (fold (\<lambda>((item, index), t) a. a[index := mark_taken ar item t]) ts arr) = length arr"
  by (induction ts arbitrary: arr) (auto split: prod.splits)

lemma fold_mark_other:
  "i \<notin> set (map (\<lambda>x. snd (fst x)) ts) \<Longrightarrow>
   fold (\<lambda>((item, index), t) a. a[index := mark_taken ar item t]) ts arr ! i = arr ! i"
  by (induction ts arbitrary: arr) (auto split: prod.splits)

lemma fold_mark_hit:
  "distinct (map (\<lambda>x. snd (fst x)) ts) \<Longrightarrow> ((item, i), t) \<in> set ts \<Longrightarrow> i < length arr \<Longrightarrow>
   fold (\<lambda>((item, index), t) a. a[index := mark_taken ar item t]) ts arr ! i = mark_taken ar item t"
proof (induction ts arbitrary: arr)
  case Nil
  then show ?case by simp
next
  case (Cons x ts)
  obtain item' j t' where x: "x = ((item', j), t')" by (cases x) auto
  show ?case
  proof (cases "((item, i), t) = x")
    case True
    then have "i \<notin> set (map (\<lambda>x. snd (fst x)) ts)" using Cons.prems(1) by force
    then have "fold (\<lambda>((item, index), t) a. a[index := mark_taken ar item t]) ts
                 (arr[i := mark_taken ar item t]) ! i = arr[i := mark_taken ar item t] ! i"
      by (rule fold_mark_other)
    then show ?thesis using True[symmetric] Cons.prems(3) by simp
  next
    case False
    then have "((item, i), t) \<in> set ts" using Cons.prems(2) by simp
    moreover have "distinct (map (\<lambda>x. snd (fst x)) ts)" using Cons.prems(1) by simp
    ultimately show ?thesis using Cons.IH Cons.prems(3) by (simp add: x)
  qed
qed

lemma deductFromInventory_final:
  "deductFromInventory ar srt ing R q inventory ms uid =
     \<lparr>updatedInventory =
        filter (\<lambda>item. quantity item \<noteq> -1) (fst (deduct_final ar srt ing R q inventory ms uid)),
      deducted = fst (snd (deduct_final ar srt ing R q inventory ms uid))\<rparr>"
  by (simp add: deductFromInventory_def split: prod.splits)

lemma updatedInventory_slots:
  "updatedInventory (deductFromInventory ar srt ing R q inventory ms uid) =
     List.map_filter id (result_slots ar srt ing R q inventory ms uid)"
  by (simp add: deductFromInventory_final result_slots_def map_filter_slots)

lemma deducted_takes:
  "deducted (deductFromInventory ar srt ing R q inventory ms uid) =
     map (\<lambda>((item, index), t). (measurementId item, t))
       (deduct_takes ar R ms (sortedItems srt ing R inventory uid) q)"
  by (simp add: deductFromInventory_final deduct_final_def deduct_loop_deducted)

lemma marked_takes:
  "fst (deduct_final ar srt ing R q inventory ms uid) =
     fold (\<lambda>((item, index), t) a. a[index := mark_taken ar item t])
       (deduct_takes ar R ms (sortedItems srt ing R inventory uid) q) inventory"
  by (simp add: deduct_final_def deduct_loop_marked)

lemma marked_length: "length (fst (deduct_final ar srt ing R q inventory ms uid)) = length inventory"
  by (simp add: marked_takes fold_mark_length)

lemma taken_is_candidate:
  assumes "sort_permutes srt"
    and "((item, i), t) \<in> set (deduct_takes ar R ms (sortedItems srt ing R inventory uid) q)"
  shows "i < length inventory \<and> item = inventory ! i \<and> is_candidate uid ing item"
proof -
  have "(item, i) \<in> set (sortedItems srt ing R inventory uid)"
    using assms(2) by (rule deduct_takes_mem)
  then have "(item, i) \<in> set (relevantItems ing inventory uid)"
    using assms(1) by (simp add: sortedItems_set)
  then show ?thesis unfolding relevantItems_mem by blast
qed

lemma marked_hit:
  assumes "sort_permutes srt"
    and "((item, i), t) \<in> set (deduct_takes ar R ms (sortedItems srt ing R inventory uid) q)"
  shows "fst (deduct_final ar srt ing R q inventory ms uid) ! i = mark_taken ar item t"
proof -
  have "distinct (map (\<lambda>x. snd (fst x)) (deduct_takes ar R ms (sortedItems srt ing R inventory uid) q))"
    using assms(1) by (intro deduct_takes_distinct sortedItems_distinct)
  moreover have "i < length inventory" using taken_is_candidate[OF assms] by simp
  ultimately show ?thesis unfolding marked_takes using assms(2) by (intro fold_mark_hit)
qed

lemma marked_untouched:
  assumes "sort_permutes srt"
    and "\<not> is_candidate uid ing (inventory ! i) \<or>
         convertMeasurement ar R (measurementId (inventory ! i)) 1 ms = None"
  shows "fst (deduct_final ar srt ing R q inventory ms uid) ! i = inventory ! i"
proof -
  have "i \<notin> set (map (\<lambda>x. snd (fst x)) (deduct_takes ar R ms (sortedItems srt ing R inventory uid) q))"
  proof
    assume "i \<in> set (map (\<lambda>x. snd (fst x)) (deduct_takes ar R ms (sortedItems srt ing R inventory uid) q))"
    then obtain item t where
      mem: "((item, i), t) \<in> set (deduct_takes ar R ms (sortedItems srt ing R inventory uid) q)"
      by auto
    have "item = inventory ! i" "is_candidate uid ing item"
      using taken_is_candidate[OF assms(1) mem] by blast+
    moreover have "convertMeasurement ar R (measurementId item) 1 ms \<noteq> None"
      using mem by (rule deduct_takes_convertible)
    ultimately show False using assms(2) by simp
  qed
  then show ?thesis unfolding marked_takes by (rule fold_mark_other)
qed

lemma slots_nth:
  "i < length inventory \<Longrightarrow>
   result_slots ar srt ing R q inventory ms uid ! i =
     (let r = fst (deduct_final ar srt ing R q inventory ms uid) ! i
      in if quantity r = -1 then None else Some r)"
  by (simp add: result_slots_def marked_length Let_def)

lemma slots_length: "length (result_slots ar srt ing R q inventory ms uid) = length inventory"
  by (simp add: result_slots_def marked_length)

lemma sortedItems_candidates:
  assumes "sort_permutes srt" and "x \<in> set (sortedItems srt ing R inventory uid)"
  shows "fst x \<in> set inventory \<and> is_candidate uid ing (fst x)"
proof -
  obtain item i where x: "x = (item, i)" by (cases x)
  have "(item, i) \<in> set (relevantItems ing inventory uid)"
    using assms sortedItems_set[OF assms(1)] x by simp
  then show ?thesis unfolding x by (auto simp: relevantItems_mem)
qed

lemma sortedItems_length:
  assumes "sort_permutes srt"
  shows "length (sortedItems srt ing R inventory uid) =
           length (filter (is_candidate uid ing) inventory)"
proof -
  have "mset (sortedItems srt ing R inventory uid) = mset (relevantItems ing inventory uid)"
    using assms unfolding sort_permutes_def sortedItems_def by simp
  then have "length (sortedItems srt ing R inventory uid) =
             length (relevantItems ing inventory uid)"
    by (rule mset_eq_length)
  also have "\<dots> = length (map fst (relevantItems ing inventory uid))" by simp
  also have "\<dots> = length (filter (is_candidate uid ing) inventory)"
    by (simp only: relevantItems_fst)
  finally show ?thesis .
qed

lemma sortedItems_worth:
  assumes "sort_permutes srt"
  shows "sum_list (map (\<lambda>x. worth ar R ms (fst x)) (sortedItems srt ing R inventory uid)) =
           candidate_stock ar uid ing R inventory ms"
proof -
  have "mset (sortedItems srt ing R inventory uid) = mset (relevantItems ing inventory uid)"
    using assms unfolding sort_permutes_def sortedItems_def by simp
  then have "sum_list (map (\<lambda>x. worth ar R ms (fst x)) (sortedItems srt ing R inventory uid)) =
             sum_list (map (\<lambda>x. worth ar R ms (fst x)) (relevantItems ing inventory uid))"
    by (rule sum_list_map_perm)
  also have "\<dots> = sum_list (map (worth ar R ms) (map fst (relevantItems ing inventory uid)))"
    by (simp add: comp_def)
  also have "\<dots> = sum_list (map (worth ar R ms) (filter (is_candidate uid ing) inventory))"
    by (simp only: relevantItems_fst)
  also have "\<dots> = candidate_stock ar uid ing R inventory ms"
    unfolding candidate_stock_def sum_list_map_filter worth_def ..
  finally show ?thesis .
qed

lemma deducted_in_required_takes:
  "deducted_in_required ar R ms (deducted (deductFromInventory ar srt ing R q inventory ms uid)) =
     taken_in_required ar R ms (sortedItems srt ing R inventory uid) q"
  by (simp only: deducted_takes taken_in_required_def)

subsection \<open>Rounding\<close>

lemma exact_rounding_model: "rounding_model exact_arith 0 0"
  by (simp add: rounding_model_def exact_arith_def mult_right_mono)

lemma biased_rounding_model:
  assumes "0 \<le> u" "u \<le> 1 / 2"
  shows "rounding_model (biased_arith u) u 0"
proof -
  have mul: "\<bar>x * y * (1 + u) - x * y\<bar> \<le> u * \<bar>x * y\<bar>" for x y :: real
  proof -
    have "x * y * (1 + u) - x * y = u * (x * y)" by (simp add: algebra_simps)
    then show ?thesis using assms(1) by (simp add: abs_mult)
  qed
  have sub: "\<bar>(if y \<le> x then (x - y) * (1 - u) else (x - y) * (1 + u)) - (x - y)\<bar>
               \<le> u * \<bar>x - y\<bar>" for x y :: real
  proof (cases "y \<le> x")
    case True
    have "(x - y) * (1 - u) - (x - y) = - (u * (x - y))" by (simp add: algebra_simps)
    then show ?thesis using True assms(1) by (simp add: abs_mult)
  next
    case False
    have "(x - y) * (1 + u) - (x - y) = u * (x - y)" by (simp add: algebra_simps)
    then show ?thesis using False assms(1) by (simp add: abs_mult)
  qed
  have le: "(if y \<le> x then (x - y) * (1 - u) else (x - y) * (1 + u)) \<le> x"
    if "0 \<le> y" for x y :: real
  proof (cases "y \<le> x")
    case True
    have "(x - y) * (1 - u) \<le> (x - y) * 1" using True assms by (intro mult_left_mono) simp_all
    then show ?thesis using True that by simp
  next
    case False
    have "(x - y) * (1 + u) = (x - y) + u * (x - y)" by (simp add: algebra_simps)
    moreover have "u * (x - y) \<le> 0" using False assms(1) by (simp add: mult_le_0_iff)
    ultimately show ?thesis using False that by simp
  qed
  have nonneg: "0 \<le> x * y * (1 + u)" if "0 \<le> x" "0 \<le> y" for x y :: real
    using that assms(1) by simp
  have mono: "x * z * (1 + u) \<le> y * z * (1 + u)" if "x \<le> y" "0 \<le> z" for x y z :: real
    using that assms(1) by (simp add: mult_right_mono)
  show ?thesis
    unfolding rounding_model_def biased_arith_def
    using assms mul sub le nonneg mono by simp
qed

lemma rm_mul_nonneg: "rounding_model ar u \<eta> \<Longrightarrow> 0 \<le> x \<Longrightarrow> 0 \<le> y \<Longrightarrow> 0 \<le> fmul ar x y"
  by (simp add: rounding_model_def)

lemma rm_mul_mono:
  "rounding_model ar u \<eta> \<Longrightarrow> x \<le> y \<Longrightarrow> 0 \<le> z \<Longrightarrow> fmul ar x z \<le> fmul ar y z"
  by (simp add: rounding_model_def)

lemma rm_mul_upper:
  assumes "rounding_model ar u \<eta>" "0 \<le> x" "0 \<le> y"
  shows "fmul ar x y \<le> x * y * (1 + u) + \<eta>"
proof -
  have "\<bar>fmul ar x y - x * y\<bar> \<le> u * \<bar>x * y\<bar> + \<eta>"
    using assms(1) by (simp add: rounding_model_def)
  moreover have "\<bar>x * y\<bar> = x * y" using assms(2,3) by simp
  ultimately have "fmul ar x y - x * y \<le> u * (x * y) + \<eta>" by simp
  then show ?thesis by (simp add: algebra_simps)
qed

lemma rm_mul_lower:
  assumes "rounding_model ar u \<eta>" "0 \<le> x" "0 \<le> y"
  shows "x * y * (1 - u) - \<eta> \<le> fmul ar x y"
proof -
  have "\<bar>fmul ar x y - x * y\<bar> \<le> u * \<bar>x * y\<bar> + \<eta>"
    using assms(1) by (simp add: rounding_model_def)
  moreover have "\<bar>x * y\<bar> = x * y" using assms(2,3) by simp
  ultimately have "x * y - fmul ar x y \<le> u * (x * y) + \<eta>" by simp
  then show ?thesis by (simp add: algebra_simps)
qed

lemma rm_sub_nonpos:
  assumes "rounding_model ar u \<eta>" "fsub ar x y \<le> 0"
  shows "x \<le> y"
proof (rule ccontr)
  assume "\<not> x \<le> y"
  then have pos: "0 < x - y" by simp
  have "\<bar>fsub ar x y - (x - y)\<bar> \<le> u * \<bar>x - y\<bar>"
    using assms(1) by (simp add: rounding_model_def)
  then have "(x - y) - fsub ar x y \<le> u * (x - y)" using pos by simp
  then have "(x - y) * (1 - u) \<le> fsub ar x y" by (simp add: algebra_simps)
  moreover have "0 < (x - y) * (1 - u)"
    using pos assms(1) by (simp add: rounding_model_def)
  ultimately show False using assms(2) by simp
qed

lemma rm_sub_pos:
  assumes "rounding_model ar u \<eta>" "0 < fsub ar x y"
  shows "0 < x - y \<and> (x - y) * (1 - u) \<le> fsub ar x y \<and> fsub ar x y \<le> (x - y) * (1 + u)"
proof -
  have b: "\<bar>fsub ar x y - (x - y)\<bar> \<le> u * \<bar>x - y\<bar>"
    using assms(1) by (simp add: rounding_model_def)
  have u: "0 \<le> u" "u \<le> 1 / 2" using assms(1) by (simp_all add: rounding_model_def)
  have pos: "0 < x - y"
  proof (rule ccontr)
    assume "\<not> 0 < x - y"
    then have np: "x - y \<le> 0" by simp
    then have "fsub ar x y - (x - y) \<le> u * (- (x - y))" using b by simp
    then have "fsub ar x y \<le> (x - y) * (1 - u)" by (simp add: algebra_simps)
    moreover have "(x - y) * (1 - u) \<le> 0"
      using np u by (simp add: mult_le_0_iff)
    ultimately show False using assms(2) by simp
  qed
  have "fsub ar x y - (x - y) \<le> u * (x - y)" "(x - y) - fsub ar x y \<le> u * (x - y)"
    using b pos by simp_all
  then have "(x - y) * (1 - u) \<le> fsub ar x y" "fsub ar x y \<le> (x - y) * (1 + u)"
    by (simp_all add: algebra_simps)
  then show ?thesis using pos by simp
qed

lemma rm_sub_le: "rounding_model ar u \<eta> \<Longrightarrow> 0 \<le> y \<Longrightarrow> fsub ar x y \<le> x"
  by (simp add: rounding_model_def)

subsection \<open>The amount taken, one record at a time\<close>

lemma taken_Nil: "taken_in_required ar R ms [] rem = 0"
  by (simp add: taken_in_required_def deducted_in_required_def List.map_filter_simps)

lemma taken_nonpos: "rem \<le> 0 \<Longrightarrow> taken_in_required ar R ms xs rem = 0"
  by (simp add: taken_in_required_def deducted_in_required_def deduct_takes_nonpos
      List.map_filter_simps)

lemma taken_skip:
  assumes "0 < rem" and "convertMeasurement ar R (measurementId item) rem ms = None"
  shows "taken_in_required ar R ms ((item, i) # xs) rem = taken_in_required ar R ms xs rem"
  using assms by (simp add: taken_in_required_def)

lemma taken_lost:
  assumes "0 < rem" and "convertMeasurement ar R (measurementId item) rem ms = Some amt"
    and "convertMeasurement ar (measurementId item) R (min (quantity item) amt) ms = None"
  shows "taken_in_required ar R ms ((item, i) # xs) rem = taken_in_required ar R ms xs rem"
  using assms
  by (simp add: taken_in_required_def deducted_in_required_def Let_def List.map_filter_simps)

lemma taken_take:
  assumes "0 < rem" and "convertMeasurement ar R (measurementId item) rem ms = Some amt"
    and "convertMeasurement ar (measurementId item) R (min (quantity item) amt) ms = Some d"
  shows "taken_in_required ar R ms ((item, i) # xs) rem =
           d + taken_in_required ar R ms xs (fsub ar rem d)"
  using assms
  by (simp add: taken_in_required_def deducted_in_required_def Let_def List.map_filter_simps)

lemma step_upper:
  assumes rm: "rounding_model ar u \<eta>" and G: "0 \<le> G" and P: "1 \<le> P" and r: "0 < r"
    and qn: "0 \<le> quantity item"
    and wu: "measurementId item \<noteq> R \<Longrightarrow> round_trip_at_most ms R P G (measurementId item)"
    and fw: "convertMeasurement ar R (measurementId item) r ms = Some amt"
    and bw: "convertMeasurement ar (measurementId item) R (min (quantity item) amt) ms = Some d"
  shows "0 \<le> d \<and> d \<le> r * (1 + u)\<^sup>2 * P + \<eta> * (G * (1 + u) + 1)"
proof -
  have u: "0 \<le> u" "u \<le> 1 / 2" and e: "0 \<le> \<eta>"
    using rm by (simp_all add: rounding_model_def)
  have one: "1 \<le> (1 + u)\<^sup>2" using u by (simp add: power2_eq_square algebra_simps)
  have slack: "0 \<le> \<eta> * (G * (1 + u) + 1)" using e G u by simp
  have base: "0 \<le> r * (1 + u)\<^sup>2" using r by simp
  show ?thesis
  proof (cases "measurementId item = R")
    case True
    have "amt = r" using fw True by (simp add: convert_same)
    then have d: "d = min (quantity item) r" using bw True by (simp add: convert_same)
    have "r * 1 \<le> r * (1 + u)\<^sup>2" using one r by (intro mult_left_mono) simp_all
    moreover have "r * (1 + u)\<^sup>2 * 1 \<le> r * (1 + u)\<^sup>2 * P"
      using P base by (intro mult_left_mono) simp_all
    ultimately have "r \<le> r * (1 + u)\<^sup>2 * P + \<eta> * (G * (1 + u) + 1)" using slack by simp
    then show ?thesis using d qn r by simp
  next
    case False
    then have False': "R \<noteq> measurementId item" by simp
    obtain f where f: "direct_factor ms R (measurementId item) = Some f"
      and amt: "amt = fmul ar r f"
      using fw convert_factor[OF False', of ar r ms] by auto
    obtain g where g: "direct_factor ms (measurementId item) R = Some g"
      and d: "d = fmul ar (min (quantity item) amt) g"
      using bw convert_factor[OF False, of ar "min (quantity item) amt" ms] by auto
    have fg: "0 \<le> f" "0 \<le> g" "g \<le> G" "f * g \<le> P"
      using wu[OF False] f g by (simp_all add: round_trip_at_most_def)
    have amt0: "0 \<le> amt" unfolding amt using rm r fg(1) by (intro rm_mul_nonneg) simp_all
    have amtu: "amt \<le> r * f * (1 + u) + \<eta>"
      unfolding amt using rm r fg(1) by (intro rm_mul_upper) simp_all
    let ?t = "min (quantity item) amt"
    have t0: "0 \<le> ?t" using qn amt0 by simp
    have d0: "0 \<le> d" unfolding d using rm t0 fg(2) by (rule rm_mul_nonneg)
    have gu: "0 \<le> g * (1 + u)" using fg(2) u by simp
    have "d \<le> ?t * g * (1 + u) + \<eta>" unfolding d using rm t0 fg(2) by (rule rm_mul_upper)
    also have "\<dots> = ?t * (g * (1 + u)) + \<eta>" by simp
    also have "\<dots> \<le> amt * (g * (1 + u)) + \<eta>"
      using gu by (simp add: mult_right_mono)
    also have "\<dots> \<le> (r * f * (1 + u) + \<eta>) * (g * (1 + u)) + \<eta>"
      using amtu gu by (simp add: mult_right_mono)
    also have "\<dots> = r * (1 + u)\<^sup>2 * (f * g) + \<eta> * (g * (1 + u) + 1)"
      by (simp add: power2_eq_square algebra_simps)
    also have "\<dots> \<le> r * (1 + u)\<^sup>2 * P + \<eta> * (G * (1 + u) + 1)"
    proof (rule add_mono)
      show "r * (1 + u)\<^sup>2 * (f * g) \<le> r * (1 + u)\<^sup>2 * P"
        using fg(4) base by (rule mult_left_mono)
      have "g * (1 + u) \<le> G * (1 + u)" using fg(3) u by (simp add: mult_right_mono)
      then show "\<eta> * (g * (1 + u) + 1) \<le> \<eta> * (G * (1 + u) + 1)"
        using e by (simp add: mult_left_mono)
    qed
    finally show ?thesis using d0 by simp
  qed
qed

lemma worth_nonneg:
  assumes rm: "rounding_model ar u \<eta>" and qn: "0 \<le> quantity item"
    and ip: "measurementId item \<noteq> R \<Longrightarrow> round_trip_at_least ms R p G (measurementId item)"
  shows "0 \<le> worth ar R ms item"
proof (cases "measurementId item = R")
  case True
  then show ?thesis using qn by (simp add: worth_def convert_same)
next
  case False
  show ?thesis
  proof (cases "direct_factor ms (measurementId item) R")
    case None
    then show ?thesis using False by (simp add: worth_def convert_factor)
  next
    case (Some g)
    then have "0 \<le> g" using ip[OF False]
      by (auto simp: round_trip_at_least_def split: option.splits)
    then have "0 \<le> fmul ar (quantity item) g" using rm qn by (intro rm_mul_nonneg)
    then show ?thesis using False Some by (simp add: worth_def convert_factor)
  qed
qed

lemma skip_worth:
  assumes ip: "measurementId item \<noteq> R \<Longrightarrow> round_trip_at_least ms R p G (measurementId item)"
    and fw: "convertMeasurement ar R (measurementId item) r ms = None"
  shows "worth ar R ms item = 0"
proof -
  have ne: "measurementId item \<noteq> R" using fw by (auto simp: convert_same)
  then have "direct_factor ms R (measurementId item) = None"
    using fw convert_factor[of R "measurementId item" ar r ms] by auto
  then have "direct_factor ms (measurementId item) R = None"
    using ip[OF ne] by (auto simp: round_trip_at_least_def split: option.splits)
  then show ?thesis using ne by (simp add: worth_def convert_factor)
qed

lemma lost_worth:
  assumes bw: "convertMeasurement ar (measurementId item) R t ms = None"
  shows "worth ar R ms item = 0"
  using convertMeasurement_None_any[OF bw, of "quantity item"] by (simp add: worth_def)

lemma step_lower:
  assumes rm: "rounding_model ar u \<eta>" and G: "0 \<le> G" and p: "0 \<le> p" "p \<le> 1"
    and r: "0 < r" and qn: "0 \<le> quantity item"
    and ip: "measurementId item \<noteq> R \<Longrightarrow> round_trip_at_least ms R p G (measurementId item)"
    and fw: "convertMeasurement ar R (measurementId item) r ms = Some amt"
    and bw: "convertMeasurement ar (measurementId item) R (min (quantity item) amt) ms = Some d"
  shows "0 \<le> d \<and> d \<le> worth ar R ms item \<and>
         (quantity item \<le> amt \<longrightarrow> d = worth ar R ms item) \<and>
         (amt < quantity item \<longrightarrow> r * (1 - u)\<^sup>2 * p - \<eta> * (G + 1) \<le> d)"
proof -
  have u: "0 \<le> u" "u \<le> 1 / 2" and e: "0 \<le> \<eta>"
    using rm by (simp_all add: rounding_model_def)
  have sq: "(1 - u)\<^sup>2 \<le> 1"
  proof -
    have "(1 - u) * (1 - u) \<le> 1 * 1" using u by (intro mult_mono) simp_all
    then show ?thesis by (simp add: power2_eq_square)
  qed
  have base: "0 \<le> r * (1 - u)\<^sup>2" using r by simp
  show ?thesis
  proof (cases "measurementId item = R")
    case True
    have a: "amt = r" using fw True by (simp add: convert_same)
    then have d: "d = min (quantity item) r" using bw True by (simp add: convert_same)
    have w: "worth ar R ms item = quantity item" using True by (simp add: worth_def convert_same)
    have "r * (1 - u)\<^sup>2 \<le> r * 1" using sq r by (intro mult_left_mono) simp_all
    moreover have "r * (1 - u)\<^sup>2 * p \<le> r * (1 - u)\<^sup>2 * 1"
      using p(2) base by (rule mult_left_mono)
    moreover have "0 \<le> \<eta> * (G + 1)" using e G by simp
    ultimately have "r * (1 - u)\<^sup>2 * p - \<eta> * (G + 1) \<le> r" by simp
    then show ?thesis using d w a qn r by auto
  next
    case False
    then have False': "R \<noteq> measurementId item" by simp
    obtain f where f: "direct_factor ms R (measurementId item) = Some f"
      and amt: "amt = fmul ar r f"
      using fw convert_factor[OF False', of ar r ms] by auto
    obtain g where g: "direct_factor ms (measurementId item) R = Some g"
      and d: "d = fmul ar (min (quantity item) amt) g"
      using bw convert_factor[OF False, of ar "min (quantity item) amt" ms] by auto
    have fg: "0 \<le> f" "0 \<le> g" "g \<le> G" "p \<le> f * g"
      using ip[OF False] f g by (simp_all add: round_trip_at_least_def)
    have w: "worth ar R ms item = fmul ar (quantity item) g"
      using False g by (simp add: worth_def convert_factor)
    have amt0: "0 \<le> amt" unfolding amt using rm r fg(1) by (intro rm_mul_nonneg) simp_all
    have amtl: "r * f * (1 - u) - \<eta> \<le> amt"
      unfolding amt using rm r fg(1) by (intro rm_mul_lower) simp_all
    have t0: "0 \<le> min (quantity item) amt" using qn amt0 by simp
    have d0: "0 \<le> d" unfolding d using rm t0 fg(2) by (rule rm_mul_nonneg)
    have le: "d \<le> worth ar R ms item"
      unfolding d w using rm fg(2) by (intro rm_mul_mono) simp_all
    have full: "quantity item \<le> amt \<longrightarrow> d = worth ar R ms item"
      unfolding d w by (simp add: min_def)
    have part: "r * (1 - u)\<^sup>2 * p - \<eta> * (G + 1) \<le> d" if lt: "amt < quantity item"
    proof -
      have dm: "d = fmul ar amt g" using lt d by (simp add: min_def)
      have gu: "0 \<le> g * (1 - u)" using fg(2) u by simp
      have gG: "g * (1 - u) \<le> G"
      proof -
        have "g * (1 - u) \<le> g * 1" using fg(2) u by (intro mult_left_mono) simp_all
        then show ?thesis using fg(3) by simp
      qed
      have "r * (1 - u)\<^sup>2 * p \<le> r * (1 - u)\<^sup>2 * (f * g)"
        using fg(4) base by (rule mult_left_mono)
      moreover have "\<eta> * (g * (1 - u) + 1) \<le> \<eta> * (G + 1)"
        using gG e by (intro mult_left_mono) simp_all
      ultimately have "r * (1 - u)\<^sup>2 * p - \<eta> * (G + 1) \<le>
                         r * (1 - u)\<^sup>2 * (f * g) - \<eta> * (g * (1 - u) + 1)"
        by linarith
      also have "\<dots> = (r * f * (1 - u) - \<eta>) * (g * (1 - u)) - \<eta>"
        by (simp add: power2_eq_square algebra_simps)
      also have "\<dots> \<le> amt * (g * (1 - u)) - \<eta>"
        using amtl gu by (simp add: mult_right_mono)
      also have "\<dots> = amt * g * (1 - u) - \<eta>" by simp
      also have "\<dots> \<le> d" unfolding dm using rm amt0 fg(2) by (rule rm_mul_lower)
      finally show ?thesis .
    qed
    show ?thesis using d0 le full part by blast
  qed
qed

lemma taken_upper:
  assumes rm: "rounding_model ar u \<eta>" and G: "0 \<le> G" and P: "1 \<le> P"
    and ok: "\<forall>x\<in>set xs. 0 \<le> quantity (fst x) \<and>
               (measurementId (fst x) \<noteq> R \<longrightarrow>
                  round_trip_at_most ms R P G (measurementId (fst x)))"
    and r: "0 \<le> r"
  shows "0 \<le> taken_in_required ar R ms xs r \<and>
         taken_in_required ar R ms xs r \<le>
           r * (P * (1 + (real (length xs) + 2) * u)) + \<eta> * (2 * G + 1)"
  using ok r
proof (induction xs arbitrary: r)
  case Nil
  have u: "0 \<le> u" "u \<le> 1 / 2" and e: "0 \<le> \<eta>"
    using rm by (simp_all add: rounding_model_def)
  have "0 \<le> r * (P * (1 + 2 * u))" using Nil.prems(2) u P by simp
  moreover have "0 \<le> \<eta> * (2 * G + 1)" using e G by simp
  ultimately show ?case by (simp add: taken_Nil)
next
  case (Cons x xs)
  obtain item i where x: "x = (item, i)" by (cases x)
  have u: "0 \<le> u" "u \<le> 1 / 2" and e: "0 \<le> \<eta>"
    using rm by (simp_all add: rounding_model_def)
  let ?n = "real (length xs)"
  let ?E = "\<eta> * (2 * G + 1)"
  have len: "real (length ((item, i) # xs)) + 2 = ?n + 3" by simp
  have E: "0 \<le> ?E" using e G by simp
  have r0: "0 \<le> r" by (rule Cons.prems(2))
  have P0: "0 \<le> P" using P by simp
  have a1: "1 \<le> P * (1 + (?n + 2) * u)"
  proof -
    have "1 * 1 \<le> P * (1 + (?n + 2) * u)" using P u by (intro mult_mono) simp_all
    then show ?thesis by simp
  qed
  have B0: "0 \<le> r * (P * (1 + (?n + 3) * u)) + ?E"
  proof -
    have "0 \<le> r * (P * (1 + (?n + 3) * u))" using r0 u P0 by simp
    then show ?thesis using E by simp
  qed
  have astep: "P * (1 + (?n + 2) * u) + u \<le> P * (1 + (?n + 3) * u)"
  proof -
    have "1 * u \<le> P * u" using P u(1) by (rule mult_right_mono)
    then show ?thesis by (simp add: algebra_simps)
  qed
  have grow: "r * (P * (1 + (?n + 2) * u)) \<le> r * (P * (1 + (?n + 3) * u))"
  proof -
    have "P * (1 + (?n + 2) * u) \<le> P * (1 + (?n + 3) * u)" using astep u(1) by simp
    then show ?thesis using r0 by (rule mult_left_mono)
  qed
  have qn: "0 \<le> quantity item"
    and wu: "measurementId item \<noteq> R \<Longrightarrow> round_trip_at_most ms R P G (measurementId item)"
    using Cons.prems(1) x by simp_all
  have ok': "\<forall>x\<in>set xs. 0 \<le> quantity (fst x) \<and>
               (measurementId (fst x) \<noteq> R \<longrightarrow>
                  round_trip_at_most ms R P G (measurementId (fst x)))"
    using Cons.prems(1) by simp
  note IH = Cons.IH[OF ok']
  have same: "0 \<le> taken_in_required ar R ms xs r \<and>
              taken_in_required ar R ms xs r \<le> r * (P * (1 + (?n + 3) * u)) + ?E"
    using IH[OF r0] grow by linarith
  show ?case
  proof (cases "r \<le> 0")
    case True
    then show ?thesis unfolding x len using B0 by (simp add: taken_nonpos)
  next
    case False
    then have rp: "0 < r" by simp
    show ?thesis
    proof (cases "convertMeasurement ar R (measurementId item) r ms")
      case None
      show ?thesis unfolding x len taken_skip[OF rp None] using same .
    next
      case (Some amt)
      show ?thesis
      proof (cases "convertMeasurement ar (measurementId item) R (min (quantity item) amt) ms")
        case None
        show ?thesis unfolding x len taken_lost[OF rp Some None] using same .
      next
        case (Some d)
        note bw = Some
        have fw: "convertMeasurement ar R (measurementId item) r ms = Some amt" by fact
        have st: "0 \<le> d" "d \<le> r * (1 + u)\<^sup>2 * P + \<eta> * (G * (1 + u) + 1)"
          using step_upper[OF rm G P rp qn wu fw bw] by simp_all
        have eq: "taken_in_required ar R ms ((item, i) # xs) r =
                    d + taken_in_required ar R ms xs (fsub ar r d)"
          by (rule taken_take[OF rp fw bw])
        show ?thesis
        proof (cases "fsub ar r d \<le> 0")
          case True
          have t0: "taken_in_required ar R ms xs (fsub ar r d) = 0"
            using True by (rule taken_nonpos)
          have "G * (1 + u) \<le> G * 2" using G u by (intro mult_left_mono) simp_all
          then have e1: "\<eta> * (G * (1 + u) + 1) \<le> ?E"
            using e by (intro mult_left_mono) simp_all
          have "u * u \<le> 1 * u" using u by (intro mult_right_mono) simp_all
          then have "(1 + u)\<^sup>2 \<le> 1 + 3 * u" by (simp add: power2_eq_square algebra_simps)
          also have "\<dots> \<le> 1 + (?n + 3) * u" using u(1) by (simp add: mult_right_mono)
          finally have "(1 + u)\<^sup>2 * P \<le> (1 + (?n + 3) * u) * P"
            using P0 by (rule mult_right_mono)
          then have "r * ((1 + u)\<^sup>2 * P) \<le> r * ((1 + (?n + 3) * u) * P)"
            using r0 by (rule mult_left_mono)
          moreover have "r * ((1 + u)\<^sup>2 * P) = r * (1 + u)\<^sup>2 * P"
            "r * ((1 + (?n + 3) * u) * P) = r * (P * (1 + (?n + 3) * u))"
            by (simp_all only: mult_ac)
          ultimately have "r * (1 + u)\<^sup>2 * P \<le> r * (P * (1 + (?n + 3) * u))"
            by (simp only:)
          then have "d \<le> r * (P * (1 + (?n + 3) * u)) + ?E" using st(2) e1 by linarith
          then show ?thesis unfolding x len eq t0 using st(1) by simp
        next
          case False
          then have r1: "0 < fsub ar r d" by simp
          have sp: "0 < r - d" "(r - d) * (1 - u) \<le> fsub ar r d"
            "fsub ar r d \<le> (r - d) * (1 + u)"
            using rm_sub_pos[OF rm r1] by simp_all
          have r1r: "fsub ar r d \<le> r" using rm st(1) by (rule rm_sub_le)
          have ih: "0 \<le> taken_in_required ar R ms xs (fsub ar r d)"
            "taken_in_required ar R ms xs (fsub ar r d) \<le>
               fsub ar r d * (P * (1 + (?n + 2) * u)) + ?E"
            using IH[of "fsub ar r d"] r1 by simp_all
          have "u * (r - d) \<le> u * r" using u(1) st(1) by (intro mult_left_mono) simp_all
          moreover have "(r - d) * (1 + u) = (r - d) + u * (r - d)" by (simp add: algebra_simps)
          ultimately have dle: "d \<le> r - fsub ar r d + u * r" using sp(3) by simp
          have "0 \<le> P * (1 + (?n + 2) * u) - 1" using a1 by simp
          then have "fsub ar r d * (P * (1 + (?n + 2) * u) - 1) \<le>
                       r * (P * (1 + (?n + 2) * u) - 1)"
            using r1r by (rule mult_right_mono[rotated])
          then have "fsub ar r d * (P * (1 + (?n + 2) * u)) - fsub ar r d \<le>
                       r * (P * (1 + (?n + 2) * u)) - r"
            by (simp add: algebra_simps)
          then have "d + taken_in_required ar R ms xs (fsub ar r d) \<le>
                       r * (P * (1 + (?n + 2) * u)) + u * r + ?E"
            using dle ih(2) by linarith
          also have "\<dots> = r * (P * (1 + (?n + 2) * u) + u) + ?E" by (simp add: algebra_simps)
          also have "\<dots> \<le> r * (P * (1 + (?n + 3) * u)) + ?E"
            using astep r0 by (simp add: mult_left_mono)
          finally show ?thesis unfolding x len eq using st(1) ih(1) by simp
        qed
      qed
    qed
  qed
qed

lemma worth_sum_nonneg:
  assumes rm: "rounding_model ar u \<eta>"
    and ok: "\<forall>x\<in>set xs. 0 \<le> quantity (fst x) \<and>
               (measurementId (fst x) \<noteq> R \<longrightarrow>
                  round_trip_at_least ms R p G (measurementId (fst x)))"
  shows "0 \<le> sum_list (map (\<lambda>x. worth ar R ms (fst x)) xs)"
proof (rule sum_list_nonneg)
  fix w assume "w \<in> set (map (\<lambda>x. worth ar R ms (fst x)) xs)"
  then obtain x where "x \<in> set xs" "w = worth ar R ms (fst x)" by auto
  then show "0 \<le> w" using ok worth_nonneg[OF rm, of "fst x" R ms p G] by simp
qed

lemma taken_lower:
  assumes rm: "rounding_model ar u \<eta>" and G: "0 \<le> G" and p: "0 \<le> p" "p \<le> 1"
    and ok: "\<forall>x\<in>set xs. 0 \<le> quantity (fst x) \<and>
               (measurementId (fst x) \<noteq> R \<longrightarrow>
                  round_trip_at_least ms R p G (measurementId (fst x)))"
    and r: "0 \<le> r"
  shows "taken_in_required ar R ms xs r \<le> sum_list (map (\<lambda>x. worth ar R ms (fst x)) xs) \<and>
         min (sum_list (map (\<lambda>x. worth ar R ms (fst x)) xs))
             (r * (p - (real (length xs) + 1) * u) - \<eta> * (2 * G + 1))
           \<le> taken_in_required ar R ms xs r"
  using ok r
proof (induction xs arbitrary: r)
  case Nil
  show ?case by (simp add: taken_Nil)
next
  case (Cons x xs)
  obtain item i where x: "x = (item, i)" by (cases x)
  have u: "0 \<le> u" "u \<le> 1 / 2" and e: "0 \<le> \<eta>"
    using rm by (simp_all add: rounding_model_def)
  let ?n = "real (length xs)"
  let ?E = "\<eta> * (2 * G + 1)"
  have len: "real (length ((item, i) # xs)) + 1 = ?n + 2" by simp
  have E: "0 \<le> ?E" using e G by simp
  have r0: "0 \<le> r" by (rule Cons.prems(2))
  have qn: "0 \<le> quantity item"
    and ip: "measurementId item \<noteq> R \<Longrightarrow> round_trip_at_least ms R p G (measurementId item)"
    using Cons.prems(1) x by simp_all
  have ok': "\<forall>x\<in>set xs. 0 \<le> quantity (fst x) \<and>
               (measurementId (fst x) \<noteq> R \<longrightarrow>
                  round_trip_at_least ms R p G (measurementId (fst x)))"
    using Cons.prems(1) by simp
  note IH = Cons.IH[OF ok']
  let ?W = "sum_list (map (\<lambda>x. worth ar R ms (fst x)) xs)"
  let ?w = "worth ar R ms item"
  have W0: "0 \<le> ?W" by (rule worth_sum_nonneg[OF rm ok'])
  have w0: "0 \<le> ?w" by (rule worth_nonneg[OF rm qn ip])
  have WW: "sum_list (map (\<lambda>x. worth ar R ms (fst x)) ((item, i) # xs)) = ?w + ?W" by simp
  have shrink: "r * (p - (?n + 2) * u) \<le> r * (p - (?n + 1) * u)"
  proof -
    have "(?n + 1) * u \<le> (?n + 2) * u" using u(1) by (intro mult_right_mono) simp_all
    then show ?thesis using r0 by (intro mult_left_mono) simp_all
  qed
  have Lr: "r * (p - (?n + 2) * u) - ?E \<le> r"
  proof -
    have "0 \<le> (?n + 2) * u" using u(1) by simp
    then have "p - (?n + 2) * u \<le> 1" using p(2) by linarith
    then have "r * (p - (?n + 2) * u) \<le> r * 1" using r0 by (rule mult_left_mono)
    then show ?thesis using E by simp
  qed
  have "min ?W (r * (p - (?n + 2) * u) - ?E) \<le> min ?W (r * (p - (?n + 1) * u) - ?E)"
    using shrink by (intro min.mono) simp_all
  then have same: "taken_in_required ar R ms xs r \<le> ?W \<and>
              min ?W (r * (p - (?n + 2) * u) - ?E) \<le> taken_in_required ar R ms xs r"
    using IH[OF r0] by linarith
  show ?case
  proof (cases "r \<le> 0")
    case True
    then have "r = 0" using r0 by simp
    then show ?thesis unfolding x WW len using E w0 W0 by (simp add: taken_nonpos)
  next
    case False
    then have rp: "0 < r" by simp
    show ?thesis
    proof (cases "convertMeasurement ar R (measurementId item) r ms")
      case None
      have "?w = 0" by (rule skip_worth[OF ip None])
      then show ?thesis unfolding x WW len taken_skip[OF rp None] using same by simp
    next
      case (Some amt)
      show ?thesis
      proof (cases "convertMeasurement ar (measurementId item) R (min (quantity item) amt) ms")
        case None
        have "?w = 0" by (rule lost_worth[OF None])
        then show ?thesis unfolding x WW len taken_lost[OF rp Some None] using same by simp
      next
        case (Some d)
        note bw = Some
        have fw: "convertMeasurement ar R (measurementId item) r ms = Some amt" by fact
        have st: "0 \<le> d" "d \<le> ?w" "quantity item \<le> amt \<Longrightarrow> d = ?w"
          "amt < quantity item \<Longrightarrow> r * (1 - u)\<^sup>2 * p - \<eta> * (G + 1) \<le> d"
          using step_lower[OF rm G p rp qn ip fw bw] by simp_all
        have eq: "taken_in_required ar R ms ((item, i) # xs) r =
                    d + taken_in_required ar R ms xs (fsub ar r d)"
          by (rule taken_take[OF rp fw bw])
        show ?thesis
        proof (cases "fsub ar r d \<le> 0")
          case True
          have t0: "taken_in_required ar R ms xs (fsub ar r d) = 0"
            using True by (rule taken_nonpos)
          have "r \<le> d" using rm True by (rule rm_sub_nonpos)
          then have "r * (p - (?n + 2) * u) - ?E \<le> d" using Lr by simp
          then show ?thesis unfolding x WW len eq t0 using st(2) W0 by simp
        next
          case False
          then have r1: "0 < fsub ar r d" by simp
          have sp: "0 < r - d" "(r - d) * (1 - u) \<le> fsub ar r d"
            "fsub ar r d \<le> (r - d) * (1 + u)"
            using rm_sub_pos[OF rm r1] by simp_all
          have r1r: "fsub ar r d \<le> r" using rm st(1) by (rule rm_sub_le)
          have ih: "taken_in_required ar R ms xs (fsub ar r d) \<le> ?W"
            "min ?W (fsub ar r d * (p - (?n + 1) * u) - ?E)
               \<le> taken_in_required ar R ms xs (fsub ar r d)"
            using IH[of "fsub ar r d"] r1 by simp_all
          have up: "d + taken_in_required ar R ms xs (fsub ar r d) \<le> ?w + ?W"
            using st(2) ih(1) by simp
          have lo: "min (?w + ?W) (r * (p - (?n + 2) * u) - ?E)
                      \<le> d + taken_in_required ar R ms xs (fsub ar r d)"
          proof (cases "?W \<le> fsub ar r d * (p - (?n + 1) * u) - ?E")
            case True
            then have a: "?W \<le> taken_in_required ar R ms xs (fsub ar r d)" using ih(2) by simp
            show ?thesis
            proof (cases "quantity item \<le> amt")
              case True
              then show ?thesis using st(3) a by simp
            next
              case False
              then have pt: "r * (1 - u)\<^sup>2 * p - \<eta> * (G + 1) \<le> d" using st(4) by simp
              have "(1 - u)\<^sup>2 * p = p - 2 * u * p + u * u * p"
                by (simp add: power2_eq_square algebra_simps)
              moreover have "2 * u * p \<le> 2 * u * 1" using p(2) u(1) by (intro mult_left_mono) simp_all
              moreover have "0 \<le> u * u * p" using p(1) u(1) by simp
              moreover have "2 * u \<le> (?n + 2) * u" using u(1) by (intro mult_right_mono) simp_all
              ultimately have "p - (?n + 2) * u \<le> (1 - u)\<^sup>2 * p" by linarith
              then have "r * (p - (?n + 2) * u) \<le> r * ((1 - u)\<^sup>2 * p)"
                using r0 by (rule mult_left_mono)
              then have "r * (p - (?n + 2) * u) \<le> r * (1 - u)\<^sup>2 * p"
                by (simp add: mult.assoc)
              moreover have "\<eta> * (G + 1) \<le> ?E"
                using e G by (intro mult_left_mono) simp_all
              ultimately have "r * (p - (?n + 2) * u) - ?E \<le> d" using pt by linarith
              then show ?thesis using a W0 by simp
            qed
          next
            case False
            then have a: "fsub ar r d * (p - (?n + 1) * u) - ?E
                            \<le> taken_in_required ar R ms xs (fsub ar r d)"
              using ih(2) by simp
            have "u * (r - d) \<le> u * r" using u(1) st(1) by (intro mult_left_mono) simp_all
            moreover have "(r - d) * (1 - u) = (r - d) - u * (r - d)"
              by (simp add: algebra_simps)
            ultimately have dge: "r - fsub ar r d - u * r \<le> d" using sp(2) by simp
            have "0 \<le> (?n + 1) * u" using u(1) by simp
            then have "0 \<le> 1 - (p - (?n + 1) * u)" using p(2) by linarith
            then have "fsub ar r d * (1 - (p - (?n + 1) * u)) \<le> r * (1 - (p - (?n + 1) * u))"
              using r1r by (rule mult_right_mono[rotated])
            then have "fsub ar r d - fsub ar r d * (p - (?n + 1) * u) \<le>
                         r - r * (p - (?n + 1) * u)"
              by (simp add: algebra_simps)
            then have "r * (p - (?n + 1) * u) - u * r - ?E \<le>
                         d + taken_in_required ar R ms xs (fsub ar r d)"
              using a dge by linarith
            moreover have "r * (p - (?n + 1) * u) - u * r - ?E = r * (p - (?n + 2) * u) - ?E"
              by (simp add: algebra_simps)
            ultimately show ?thesis by simp
          qed
          show ?thesis unfolding x WW len eq using up lo by simp
        qed
      qed
    qed
  qed
qed

text \<open>The definitions a concrete run of \<open>deductFromInventory\<close> unfolds.\<close>

lemmas run_defs = deductFromInventory_def deduct_final_def sortedItems_def relevantItems_def
  sort_by_def compareItems_def convertMeasurement_def exact_arith_def threshold_def

section \<open>Properties\<close>

subsection \<open>convertMeasurement\<close>

text \<open>
  C2. \<open>convertMeasurement\<close> returns the quantity unchanged when source and target are the
  same unit, whatever the catalog holds. Otherwise it returns \<open>None\<close> when no unit of the
  catalog has the source id; when the source unit (the first record with that id) has an
  edge to the target, it returns the product, as the engine computes it, of the quantity
  and the factor of that edge; when the source unit has no edge to the target it returns
  \<open>None\<close>, whatever the other units convert to: in the catalog A \<rightarrow> B, B \<rightarrow> C, converting
  A to C gives \<open>None\<close>.
\<close>

theorem convertMeasurement_direct_only:
  "convertMeasurement ar u u q ms = Some q \<and>
   (s \<noteq> t \<and> (\<forall>m\<in>set ms. id_m m \<noteq> s) \<longrightarrow> convertMeasurement ar s t q ms = None) \<and>
   (s \<noteq> t \<and> List.find (\<lambda>m. id_m m = s) ms = Some m \<and> c \<in> set (conversions m) \<and>
      toMeasurementId c = t \<and>
      (\<forall>c'\<in>set (conversions m). toMeasurementId c' = t \<longrightarrow> factor c' = factor c) \<longrightarrow>
    convertMeasurement ar s t q ms = Some (fmul ar q (factor c))) \<and>
   (s \<noteq> t \<and> List.find (\<lambda>m. id_m m = s) ms = Some m \<and>
      (\<forall>c\<in>set (conversions m). toMeasurementId c \<noteq> t) \<longrightarrow>
    convertMeasurement ar s t q ms = None) \<and>
   convertMeasurement ar ''A'' ''B'' q chain_units = Some (fmul ar q 2) \<and>
   convertMeasurement ar ''B'' ''C'' q chain_units = Some (fmul ar q 3) \<and>
   convertMeasurement ar ''A'' ''C'' q chain_units = None"
proof (intro conjI impI)
  show "convertMeasurement ar u u q ms = Some q" by (simp add: convertMeasurement_def)
next
  assume a: "s \<noteq> t \<and> (\<forall>m\<in>set ms. id_m m \<noteq> s)"
  then have "List.find (\<lambda>m. id_m m = s) ms = None" by (simp add: find_None_set)
  then show "convertMeasurement ar s t q ms = None" using a by (simp add: convertMeasurement_def)
next
  assume a: "s \<noteq> t \<and> List.find (\<lambda>m. id_m m = s) ms = Some m \<and> c \<in> set (conversions m) \<and>
      toMeasurementId c = t \<and>
      (\<forall>c'\<in>set (conversions m). toMeasurementId c' = t \<longrightarrow> factor c' = factor c)"
  show "convertMeasurement ar s t q ms = Some (fmul ar q (factor c))"
  proof (cases "List.find (\<lambda>c. toMeasurementId c = t) (conversions m)")
    case None
    then have "\<forall>x\<in>set (conversions m). toMeasurementId x \<noteq> t" by (simp only: find_None_set)
    then show ?thesis using a by blast
  next
    case (Some d)
    then have "factor d = factor c" using a find_Some_mem[OF Some] by blast
    moreover have "s \<noteq> t" "List.find (\<lambda>m. id_m m = s) ms = Some m" using a by blast+
    ultimately show ?thesis using Some by (simp add: convertMeasurement_def)
  qed
next
  assume a: "s \<noteq> t \<and> List.find (\<lambda>m. id_m m = s) ms = Some m \<and>
      (\<forall>c\<in>set (conversions m). toMeasurementId c \<noteq> t)"
  then have "List.find (\<lambda>c. toMeasurementId c = t) (conversions m) = None"
    by (simp add: find_None_set)
  moreover have "s \<noteq> t" "List.find (\<lambda>m. id_m m = s) ms = Some m" using a by blast+
  ultimately show "convertMeasurement ar s t q ms = None" by (simp add: convertMeasurement_def)
next
  show "convertMeasurement ar ''A'' ''B'' q chain_units = Some (fmul ar q 2)"
    by (simp add: convertMeasurement_def chain_units_def)
next
  show "convertMeasurement ar ''B'' ''C'' q chain_units = Some (fmul ar q 3)"
    by (simp add: convertMeasurement_def chain_units_def)
next
  show "convertMeasurement ar ''A'' ''C'' q chain_units = None"
    by (simp add: convertMeasurement_def chain_units_def)
qed

theorem convertMeasurement_direct_only_witness:
  "convertMeasurement exact_arith ''piece'' ''piece'' 3 [] = Some 3 \<and>
   convertMeasurement exact_arith ''gram'' ''cup'' 5 kitchen_units = None \<and>
   convertMeasurement exact_arith ''cup'' ''tbsp'' 2 kitchen_units = Some 32 \<and>
   convertMeasurement exact_arith ''piece'' ''cup'' 2 kitchen_units = None"
proof -
  have unknown: "''gram'' \<noteq> ''cup'' \<and> (\<forall>m\<in>set kitchen_units. id_m m \<noteq> ''gram'')"
    by (simp add: kitchen_units_def)
  have edge: "''cup'' \<noteq> ''tbsp'' \<and>
      List.find (\<lambda>m. id_m m = ''cup'') kitchen_units = Some (hd kitchen_units) \<and>
      \<lparr>toMeasurementId = ''tbsp'', factor = 16\<rparr> \<in> set (conversions (hd kitchen_units)) \<and>
      toMeasurementId \<lparr>toMeasurementId = ''tbsp'', factor = 16\<rparr> = ''tbsp'' \<and>
      (\<forall>c'\<in>set (conversions (hd kitchen_units)). toMeasurementId c' = ''tbsp'' \<longrightarrow>
         factor c' = factor \<lparr>toMeasurementId = ''tbsp'', factor = 16\<rparr>)"
    by (simp add: kitchen_units_def)
  have no_edge: "''piece'' \<noteq> ''cup'' \<and>
      List.find (\<lambda>m. id_m m = ''piece'') kitchen_units = Some (last kitchen_units) \<and>
      (\<forall>c\<in>set (conversions (last kitchen_units)). toMeasurementId c \<noteq> ''cup'')"
    by (simp add: kitchen_units_def)
  have "convertMeasurement exact_arith ''piece'' ''piece'' 3 [] = Some 3"
    by (rule convertMeasurement_direct_only[THEN conjunct1])
  moreover have "convertMeasurement exact_arith ''gram'' ''cup'' 5 kitchen_units = None"
    using unknown
    by (rule convertMeasurement_direct_only[THEN conjunct2, THEN conjunct1, THEN mp])
  moreover have "convertMeasurement exact_arith ''cup'' ''tbsp'' 2 kitchen_units =
      Some (fmul exact_arith 2 (factor \<lparr>toMeasurementId = ''tbsp'', factor = 16\<rparr>))"
    using edge
    by (rule convertMeasurement_direct_only
          [THEN conjunct2, THEN conjunct2, THEN conjunct1, THEN mp])
  moreover have "convertMeasurement exact_arith ''piece'' ''cup'' 2 kitchen_units = None"
    using no_edge
    by (rule convertMeasurement_direct_only
          [THEN conjunct2, THEN conjunct2, THEN conjunct2, THEN conjunct1, THEN mp])
  ultimately show ?thesis by (simp add: exact_arith_def)
qed

text \<open>
  C10, as amended. When source and target differ and the source unit lists more than one
  conversion to the target, the factor of the first such entry in list order is the one
  applied. When source and target are the same unit the quantity is returned unchanged,
  whatever the unit lists.
\<close>

theorem convertMeasurement_first_edge_wins:
  "(s \<noteq> t \<and> List.find (\<lambda>m. id_m m = s) ms = Some m \<and>
      filter (\<lambda>c. toMeasurementId c = t) (conversions m) = c # c' # cs \<longrightarrow>
    convertMeasurement ar s t q ms = Some (fmul ar q (factor c))) \<and>
   convertMeasurement ar t t q ms = Some q"
  by (simp add: convertMeasurement_def find_filter_hd)

theorem convertMeasurement_first_edge_wins_witness:
  "convertMeasurement exact_arith ''cup'' ''tbsp'' 2 dup_units = Some 32 \<and>
   convertMeasurement exact_arith ''cup'' ''cup'' 5 self_units = Some 5"
proof -
  have h: "''cup'' \<noteq> ''tbsp'' \<and>
      List.find (\<lambda>m. id_m m = ''cup'') dup_units = Some (hd dup_units) \<and>
      filter (\<lambda>c. toMeasurementId c = ''tbsp'') (conversions (hd dup_units)) =
        \<lparr>toMeasurementId = ''tbsp'', factor = 16\<rparr> #
        \<lparr>toMeasurementId = ''tbsp'', factor = 20\<rparr> # []"
    by (simp add: dup_units_def)
  have "convertMeasurement exact_arith ''cup'' ''tbsp'' 2 dup_units =
      Some (fmul exact_arith 2 (factor \<lparr>toMeasurementId = ''tbsp'', factor = 16\<rparr>))"
    using h by (rule convertMeasurement_first_edge_wins[THEN conjunct1, THEN mp])
  moreover have "convertMeasurement exact_arith ''cup'' ''cup'' 5 self_units = Some 5"
    by (rule convertMeasurement_first_edge_wins[THEN conjunct2])
  ultimately show ?thesis by (simp add: exact_arith_def)
qed

text \<open>
  C10 as stated fails for a unit that lists two conversions to itself: converting 5 cups
  to cups returns 5, not 5 times the factor 2 of the first of the two entries.
\<close>

theorem convertMeasurement_first_edge_wins_counterexample:
  "filter (\<lambda>c. toMeasurementId c = ''cup'') (conversions (hd self_units)) =
     [\<lparr>toMeasurementId = ''cup'', factor = 2\<rparr>, \<lparr>toMeasurementId = ''cup'', factor = 3\<rparr>] \<and>
   List.find (\<lambda>m. id_m m = ''cup'') self_units = Some (hd self_units) \<and>
   convertMeasurement exact_arith ''cup'' ''cup'' 5 self_units = Some 5 \<and>
   convertMeasurement exact_arith ''cup'' ''cup'' 5 self_units \<noteq> Some (fmul exact_arith 5 2)"
  by (simp add: self_units_def convertMeasurement_def exact_arith_def)

subsection \<open>getTotalInventoryInUnit and hasEnoughInventory\<close>

text \<open>
  C7. \<open>getTotalInventoryInUnit\<close> adds up, from 0 and in inventory order, the successful
  conversions of the records of the ingredient; in arithmetic that does not round it is
  their sum. Records whose conversion fails add nothing, and the total is 0 when every
  record of the ingredient fails to convert (in particular when there is none). The owner
  of a record plays no part.
\<close>

theorem getTotalInventoryInUnit_sum:
  "getTotalInventoryInUnit ar ing t inventory ms =
     foldl (fadd ar) 0
       (List.map_filter (\<lambda>r. convertMeasurement ar (measurementId r) t (quantity r) ms)
          (filter (\<lambda>r. ingredientId r = ing) inventory)) \<and>
   getTotalInventoryInUnit exact_arith ing t inventory ms =
     sum_list
       (List.map_filter
          (\<lambda>r. convertMeasurement exact_arith (measurementId r) t (quantity r) ms)
          (filter (\<lambda>r. ingredientId r = ing) inventory)) \<and>
   ((\<forall>r\<in>set inventory. ingredientId r = ing \<longrightarrow>
        convertMeasurement ar (measurementId r) t (quantity r) ms = None) \<longrightarrow>
    getTotalInventoryInUnit ar ing t inventory ms = 0) \<and>
   getTotalInventoryInUnit ar ing t (map (userId_update f) inventory) ms =
     getTotalInventoryInUnit ar ing t inventory ms"
proof (intro conjI impI)
  show "getTotalInventoryInUnit ar ing t inventory ms =
     foldl (fadd ar) 0
       (List.map_filter (\<lambda>r. convertMeasurement ar (measurementId r) t (quantity r) ms)
          (filter (\<lambda>r. ingredientId r = ing) inventory))"
    by (rule getTotal_foldl)
next
  show "getTotalInventoryInUnit exact_arith ing t inventory ms =
     sum_list
       (List.map_filter
          (\<lambda>r. convertMeasurement exact_arith (measurementId r) t (quantity r) ms)
          (filter (\<lambda>r. ingredientId r = ing) inventory))"
    unfolding getTotal_foldl by (simp add: exact_arith_def foldl_plus_sum_list)
next
  assume "\<forall>r\<in>set inventory. ingredientId r = ing \<longrightarrow>
        convertMeasurement ar (measurementId r) t (quantity r) ms = None"
  then have "List.map_filter (\<lambda>r. convertMeasurement ar (measurementId r) t (quantity r) ms)
       (filter (\<lambda>r. ingredientId r = ing) inventory) = []"
    by (intro map_filter_None) simp
  then show "getTotalInventoryInUnit ar ing t inventory ms = 0"
    by (simp add: getTotal_foldl)
next
  show "getTotalInventoryInUnit ar ing t (map (userId_update f) inventory) ms =
     getTotalInventoryInUnit ar ing t inventory ms"
    by (simp add: getTotal_foldl filter_map o_def List.map_filter_def)
qed

theorem getTotalInventoryInUnit_sum_witness:
  "getTotalInventoryInUnit exact_arith ''flour'' ''cup'' pantry kitchen_units = 1 + 8 * (1 / 16) \<and>
   getTotalInventoryInUnit exact_arith ''flour'' ''gram'' pantry kitchen_units = 0"
proof -
  have none: "\<forall>r\<in>set pantry. ingredientId r = ''flour'' \<longrightarrow>
        convertMeasurement exact_arith (measurementId r) ''gram'' (quantity r) kitchen_units =
          None"
    by (simp add: pantry_def kitchen_units_def convertMeasurement_def)
  have sum: "sum_list (List.map_filter
       (\<lambda>r. convertMeasurement exact_arith (measurementId r) ''cup'' (quantity r) kitchen_units)
       (filter (\<lambda>r. ingredientId r = ''flour'') pantry)) = 1 + 8 * (1 / 16)"
    by (simp add: pantry_def kitchen_units_def convertMeasurement_def List.map_filter_simps
          exact_arith_def)
  have "getTotalInventoryInUnit exact_arith ''flour'' ''cup'' pantry kitchen_units =
      1 + 8 * (1 / 16)"
    using getTotalInventoryInUnit_sum[THEN conjunct2, THEN conjunct1,
        of "''flour''" "''cup''" pantry kitchen_units]
    by (simp only: sum)
  moreover have "getTotalInventoryInUnit exact_arith ''flour'' ''gram'' pantry kitchen_units = 0"
    using none
    by (rule getTotalInventoryInUnit_sum
          [THEN conjunct2, THEN conjunct2, THEN conjunct1, THEN mp])
  ultimately show ?thesis by blast
qed

text \<open>
  C8. \<open>hasEnoughInventory\<close> reports as \<open>available\<close> the total of
  \<open>getTotalInventoryInUnit\<close> on the same arguments, and \<open>hasEnough\<close> exactly when that
  total is at least the required quantity; a required quantity equal to the total is enough.
\<close>

theorem hasEnoughInventory_nonstrict:
  "available (hasEnoughInventory ar ing u q inventory ms) =
     getTotalInventoryInUnit ar ing u inventory ms \<and>
   (hasEnough (hasEnoughInventory ar ing u q inventory ms) \<longleftrightarrow>
      getTotalInventoryInUnit ar ing u inventory ms \<ge> q) \<and>
   hasEnough
     (hasEnoughInventory ar ing u (getTotalInventoryInUnit ar ing u inventory ms) inventory ms)"
  by (simp add: hasEnoughInventory_def Let_def)

subsection \<open>deductFromInventory: what becomes of each record\<close>

text \<open>
  C4. For every record the loop takes from (at position \<open>i\<close>, amount \<open>t\<close>, with a line in
  \<open>deducted\<close>): when the new quantity, which is the old quantity minus \<open>t\<close> as the engine
  computes it, is greater than the double \<^verbatim>\<open>0.001\<close>, the position holds the record with
  the new quantity, which is in \<open>updatedInventory\<close>; otherwise the position is dropped
  from \<open>updatedInventory\<close>. \<open>updatedInventory\<close> is the kept positions in order.
\<close>

theorem deduct_epsilon_cleanup:
  assumes "sort_permutes srt"
    and "((item, i), t) \<in>
           set (deduct_takes ar R ms (sortedItems srt ing R inventory uid) q)"
  shows "i < length inventory \<and> item = inventory ! i \<and>
     (measurementId item, t) \<in>
       set (deducted (deductFromInventory ar srt ing R q inventory ms uid)) \<and>
     updatedInventory (deductFromInventory ar srt ing R q inventory ms uid) =
       List.map_filter id (result_slots ar srt ing R q inventory ms uid) \<and>
     length (result_slots ar srt ing R q inventory ms uid) = length inventory \<and>
     result_slots ar srt ing R q inventory ms uid ! i =
       (if fsub ar (quantity item) t > threshold
        then Some (item\<lparr>quantity := fsub ar (quantity item) t\<rparr>)
        else None) \<and>
     (fsub ar (quantity item) t > threshold \<longrightarrow>
      item\<lparr>quantity := fsub ar (quantity item) t\<rparr> \<in>
        set (updatedInventory (deductFromInventory ar srt ing R q inventory ms uid)))"
proof -
  have i: "i < length inventory" and item: "item = inventory ! i"
    using taken_is_candidate[OF assms] by blast+
  have line: "(measurementId item, t) \<in>
      set (deducted (deductFromInventory ar srt ing R q inventory ms uid))"
    unfolding deducted_takes using assms(2) by force
  have "fst (deduct_final ar srt ing R q inventory ms uid) ! i = mark_taken ar item t"
    using assms by (rule marked_hit)
  then have slot: "result_slots ar srt ing R q inventory ms uid ! i =
       (if fsub ar (quantity item) t > threshold
        then Some (item\<lparr>quantity := fsub ar (quantity item) t\<rparr>)
        else None)"
    using i threshold_pos by (auto simp add: slots_nth mark_taken_def)
  have kept: "item\<lparr>quantity := fsub ar (quantity item) t\<rparr> \<in>
        set (updatedInventory (deductFromInventory ar srt ing R q inventory ms uid))"
    if "fsub ar (quantity item) t > threshold"
  proof -
    have "result_slots ar srt ing R q inventory ms uid ! i =
        Some (item\<lparr>quantity := fsub ar (quantity item) t\<rparr>)"
      using slot that by simp
    moreover have "i < length (result_slots ar srt ing R q inventory ms uid)"
      using i by (simp add: slots_length)
    ultimately show ?thesis unfolding updatedInventory_slots by (intro slot_kept_mem)
  qed
  show ?thesis using i item line slot kept slots_length updatedInventory_slots by blast
qed

text \<open>
  Three runs. A record of 4097/2048 cups from which 2 cups are taken is left with 1/2048,
  below the threshold, and is dropped. A record of 65/8 tablespoons from which 1023/128
  are taken is kept with 17/128. A record holding twice the double \<^verbatim>\<open>0.001\<close>, from which that double is
  taken, is left with exactly the threshold and is dropped.
\<close>

theorem deduct_epsilon_cleanup_witness:
  "result_slots exact_arith sort_by ''flour'' ''cup'' 2 ledger kitchen_units ''u1'' ! 1 = None \<and>
   result_slots exact_arith sort_by ''flour'' ''cup'' (5 / 2) ledger kitchen_units ''u1'' ! 3 =
     Some \<lparr>userId = ''u1'', ingredientId = ''flour'', quantity = 17 / 128,
            measurementId = ''tbsp''\<rparr> \<and>
   result_slots exact_arith sort_by ''flour'' ''cup'' threshold brink kitchen_units ''u1'' ! 0 =
     None"
proof -
  have m1: "((ledger ! 1, 1), 2) \<in>
      set (deduct_takes exact_arith ''cup'' kitchen_units
             (sortedItems sort_by ''flour'' ''cup'' ledger ''u1'') 2)"
    by (simp add: sortedItems_def relevantItems_def sort_by_def compareItems_def
          convertMeasurement_def exact_arith_def ledger_def kitchen_units_def upt_rec Let_def
          eval_nat_numeral)
  have m2: "((ledger ! 3, 3), 1023 / 128) \<in>
      set (deduct_takes exact_arith ''cup'' kitchen_units
             (sortedItems sort_by ''flour'' ''cup'' ledger ''u1'') (5 / 2))"
    by (simp add: sortedItems_def relevantItems_def sort_by_def compareItems_def
          convertMeasurement_def exact_arith_def ledger_def kitchen_units_def upt_rec Let_def
          eval_nat_numeral)
  have m3: "((brink ! 0, 0), threshold) \<in>
      set (deduct_takes exact_arith ''cup'' kitchen_units
             (sortedItems sort_by ''flour'' ''cup'' brink ''u1'') threshold)"
    by (simp add: sortedItems_def relevantItems_def sort_by_def compareItems_def
          convertMeasurement_def exact_arith_def brink_def kitchen_units_def upt_rec Let_def
          threshold_def)
  have s1: "result_slots exact_arith sort_by ''flour'' ''cup'' 2 ledger kitchen_units ''u1'' ! 1 =
      (if fsub exact_arith (quantity (ledger ! 1)) 2 > threshold
       then Some ((ledger ! 1)\<lparr>quantity := fsub exact_arith (quantity (ledger ! 1)) 2\<rparr>)
       else None)"
    using deduct_epsilon_cleanup[OF sort_by_permutes m1] by blast
  have s2: "result_slots exact_arith sort_by ''flour'' ''cup'' (5 / 2) ledger kitchen_units
        ''u1'' ! 3 =
      (if fsub exact_arith (quantity (ledger ! 3)) (1023 / 128) > threshold
       then Some ((ledger ! 3)
              \<lparr>quantity := fsub exact_arith (quantity (ledger ! 3)) (1023 / 128)\<rparr>)
       else None)"
    using deduct_epsilon_cleanup[OF sort_by_permutes m2] by blast
  have s3: "result_slots exact_arith sort_by ''flour'' ''cup'' threshold brink kitchen_units
        ''u1'' ! 0 =
      (if fsub exact_arith (quantity (brink ! 0)) threshold > threshold
       then Some ((brink ! 0)
              \<lparr>quantity := fsub exact_arith (quantity (brink ! 0)) threshold\<rparr>)
       else None)"
    using deduct_epsilon_cleanup[OF sort_by_permutes m3] by blast
  show ?thesis unfolding s1 s2 s3
    by (simp add: ledger_def brink_def exact_arith_def threshold_def)
qed

text \<open>
  C5. On an inventory of the data model, whose quantities are not negative: when the
  required quantity is at most 0, and likewise when no record is a candidate, the result
  is the input inventory, record for record, with no deducted line.
\<close>

theorem deduct_noop:
  assumes "\<forall>r\<in>set inventory. 0 \<le> quantity r"
    and "q \<le> 0 \<or> (sort_permutes srt \<and> (\<forall>r\<in>set inventory. \<not> is_candidate uid ing r))"
  shows "deductFromInventory ar srt ing R q inventory ms uid =
           \<lparr>updatedInventory = inventory, deducted = []\<rparr>"
proof -
  have takes: "deduct_takes ar R ms (sortedItems srt ing R inventory uid) q = []"
    using assms(2) by (auto simp: deduct_takes_nonpos sortedItems_no_candidate)
  have "deductFromInventory ar srt ing R q inventory ms uid =
      \<lparr>updatedInventory = filter (\<lambda>r. quantity r \<noteq> -1) inventory, deducted = []\<rparr>"
    unfolding deductFromInventory_final
    by (simp add: deduct_final_def deduct_loop_marked deduct_loop_deducted takes)
  then show ?thesis using assms(1) by (simp add: nonneg_kept)
qed

theorem deduct_noop_witness:
  "deductFromInventory exact_arith sort_by ''flour'' ''cup'' 0 pantry kitchen_units ''u1'' =
     \<lparr>updatedInventory = pantry, deducted = []\<rparr> \<and>
   deductFromInventory exact_arith sort_by ''flour'' ''cup'' (- 2) pantry kitchen_units ''u1'' =
     \<lparr>updatedInventory = pantry, deducted = []\<rparr> \<and>
   deductFromInventory exact_arith sort_by ''salt'' ''cup'' 1 pantry kitchen_units ''u1'' =
     \<lparr>updatedInventory = pantry, deducted = []\<rparr>"
proof -
  have nonneg: "\<forall>r\<in>set pantry. 0 \<le> quantity r" by (simp add: pantry_def)
  have h1: "(0::real) \<le> 0 \<or>
      (sort_permutes sort_by \<and> (\<forall>r\<in>set pantry. \<not> is_candidate ''u1'' ''flour'' r))"
    by simp
  have h2: "(- 2::real) \<le> 0 \<or>
      (sort_permutes sort_by \<and> (\<forall>r\<in>set pantry. \<not> is_candidate ''u1'' ''flour'' r))"
    by simp
  have h3: "(1::real) \<le> 0 \<or>
      (sort_permutes sort_by \<and> (\<forall>r\<in>set pantry. \<not> is_candidate ''u1'' ''salt'' r))"
    by (simp add: sort_by_permutes is_candidate_def pantry_def)
  show ?thesis
    using deduct_noop[OF nonneg h1] deduct_noop[OF nonneg h2] deduct_noop[OF nonneg h3]
    by blast
qed

text \<open>
  C6. On an inventory of the data model, whose quantities are not negative: every
  position of the input that holds a record that is not a candidate, or a candidate whose
  unit the required unit does not convert to, holds the same record in the result.
  \<open>updatedInventory\<close> is the kept positions in order, so the untouched records keep
  their relative order.
\<close>

theorem deduct_frame:
  assumes "sort_permutes srt" and "\<forall>r\<in>set inventory. 0 \<le> quantity r"
    and "i < length inventory"
    and "\<not> is_candidate uid ing (inventory ! i) \<or>
         convertMeasurement ar R (measurementId (inventory ! i)) x ms = None"
  shows "updatedInventory (deductFromInventory ar srt ing R q inventory ms uid) =
       List.map_filter id (result_slots ar srt ing R q inventory ms uid) \<and>
     length (result_slots ar srt ing R q inventory ms uid) = length inventory \<and>
     result_slots ar srt ing R q inventory ms uid ! i = Some (inventory ! i) \<and>
     inventory ! i \<in> set (updatedInventory (deductFromInventory ar srt ing R q inventory ms uid))"
proof -
  have "\<not> is_candidate uid ing (inventory ! i) \<or>
         convertMeasurement ar R (measurementId (inventory ! i)) 1 ms = None"
    using assms(4)
      convertMeasurement_None_any[of ar R "measurementId (inventory ! i)" x ms 1]
    by auto
  with assms(1) have "fst (deduct_final ar srt ing R q inventory ms uid) ! i = inventory ! i"
    by (rule marked_untouched)
  moreover have "0 \<le> quantity (inventory ! i)" using assms(2,3) by simp
  ultimately have slot: "result_slots ar srt ing R q inventory ms uid ! i = Some (inventory ! i)"
    using assms(3) by (simp add: slots_nth)
  moreover have "i < length (result_slots ar srt ing R q inventory ms uid)"
    using assms(3) by (simp add: slots_length)
  ultimately have "inventory ! i \<in>
      set (updatedInventory (deductFromInventory ar srt ing R q inventory ms uid))"
    unfolding updatedInventory_slots by (intro slot_kept_mem)
  then show ?thesis using slot slots_length updatedInventory_slots by blast
qed

theorem deduct_frame_witness:
  "result_slots exact_arith sort_by ''flour'' ''cup'' (5 / 4) pantry kitchen_units ''u1'' ! 3 =
     Some \<lparr>userId = ''u1'', ingredientId = ''sugar'', quantity = 5, measurementId = ''cup''\<rparr> \<and>
   result_slots exact_arith sort_by ''flour'' ''cup'' (5 / 4) pantry kitchen_units ''u1'' ! 2 =
     Some \<lparr>userId = ''u1'', ingredientId = ''flour'', quantity = 3,
            measurementId = ''piece''\<rparr> \<and>
   result_slots exact_arith sort_by ''flour'' ''cup'' (5 / 4) pantry kitchen_units ''u1'' ! 1 =
     Some \<lparr>userId = ''u2'', ingredientId = ''flour'', quantity = 8,
            measurementId = ''tbsp''\<rparr> \<and>
   updatedInventory
     (deductFromInventory exact_arith sort_by ''flour'' ''cup'' (5 / 4) pantry kitchen_units
        ''u1'') =
     [\<lparr>userId = ''u2'', ingredientId = ''flour'', quantity = 8, measurementId = ''tbsp''\<rparr>,
      \<lparr>userId = ''u1'', ingredientId = ''flour'', quantity = 3, measurementId = ''piece''\<rparr>,
      \<lparr>userId = ''u1'', ingredientId = ''sugar'', quantity = 5, measurementId = ''cup''\<rparr>]"
proof -
  have nonneg: "\<forall>r\<in>set pantry. 0 \<le> quantity r" by (simp add: pantry_def)
  have h3: "\<not> is_candidate ''u1'' ''flour'' (pantry ! 3) \<or>
      convertMeasurement exact_arith ''cup'' (measurementId (pantry ! 3)) 1 kitchen_units = None"
    by (simp add: is_candidate_def pantry_def)
  have h2: "\<not> is_candidate ''u1'' ''flour'' (pantry ! 2) \<or>
      convertMeasurement exact_arith ''cup'' (measurementId (pantry ! 2)) 1 kitchen_units = None"
    by (simp add: convertMeasurement_def pantry_def kitchen_units_def)
  have h1: "\<not> is_candidate ''u1'' ''flour'' (pantry ! 1) \<or>
      convertMeasurement exact_arith ''cup'' (measurementId (pantry ! 1)) 1 kitchen_units = None"
    by (simp add: is_candidate_def pantry_def)
  have l3: "(3::nat) < length pantry" and l2: "(2::nat) < length pantry"
    and l1: "(1::nat) < length pantry"
    by (simp_all add: pantry_def)
  have "result_slots exact_arith sort_by ''flour'' ''cup'' (5 / 4) pantry kitchen_units ''u1'' ! 3
      = Some (pantry ! 3)"
    using deduct_frame[OF sort_by_permutes nonneg l3 h3] by blast
  moreover have "result_slots exact_arith sort_by ''flour'' ''cup'' (5 / 4) pantry kitchen_units
      ''u1'' ! 2 = Some (pantry ! 2)"
    using deduct_frame[OF sort_by_permutes nonneg l2 h2] by blast
  moreover have "result_slots exact_arith sort_by ''flour'' ''cup'' (5 / 4) pantry kitchen_units
      ''u1'' ! 1 = Some (pantry ! 1)"
    using deduct_frame[OF sort_by_permutes nonneg l1 h1] by blast
  moreover have "updatedInventory
     (deductFromInventory exact_arith sort_by ''flour'' ''cup'' (5 / 4) pantry kitchen_units
        ''u1'') =
     [\<lparr>userId = ''u2'', ingredientId = ''flour'', quantity = 8, measurementId = ''tbsp''\<rparr>,
      \<lparr>userId = ''u1'', ingredientId = ''flour'', quantity = 3, measurementId = ''piece''\<rparr>,
      \<lparr>userId = ''u1'', ingredientId = ''sugar'', quantity = 5, measurementId = ''cup''\<rparr>]"
    by (simp add: run_defs pantry_def kitchen_units_def upt_rec)
  ultimately show ?thesis by (simp add: pantry_def)
qed

text \<open>
  C9. No record of \<open>updatedInventory\<close> has quantity \<open>-1\<close>, whatever the input, the
  arithmetic and the sort. In \<open>ledger\<close> the first record belongs to another user and
  another ingredient and has quantity \<open>-1\<close>; a deduction for user u1 removes it.
\<close>

theorem deduct_no_sentinel:
  "(\<forall>r\<in>set (updatedInventory (deductFromInventory ar srt ing R q inventory ms uid)).
      quantity r \<noteq> -1) \<and>
   \<not> is_candidate ''u1'' ''flour'' (ledger ! 0) \<and> quantity (ledger ! 0) = -1 \<and>
   ledger ! 0 \<notin> set (updatedInventory
       (deductFromInventory exact_arith sort_by ''flour'' ''cup'' 1 ledger kitchen_units ''u1''))"
proof (intro conjI)
  show "\<forall>r\<in>set (updatedInventory (deductFromInventory ar srt ing R q inventory ms uid)).
      quantity r \<noteq> -1"
    by (simp add: deductFromInventory_final)
next
  show "\<not> is_candidate ''u1'' ''flour'' (ledger ! 0)"
    by (simp add: is_candidate_def ledger_def)
next
  show "quantity (ledger ! 0) = -1" by (simp add: ledger_def)
next
  show "ledger ! 0 \<notin> set (updatedInventory
       (deductFromInventory exact_arith sort_by ''flour'' ''cup'' 1 ledger kitchen_units ''u1''))"
    by (simp add: run_defs ledger_def kitchen_units_def upt_rec)
qed

theorem deduct_no_sentinel_witness:
  "list_all (\<lambda>r. quantity r \<noteq> -1)
     (updatedInventory
        (deductFromInventory exact_arith sort_by ''flour'' ''cup'' 2 ledger kitchen_units ''u1''))"
  using deduct_no_sentinel[THEN conjunct1,
      of exact_arith sort_by "''flour''" "''cup''" 2 ledger kitchen_units "''u1''"]
  by (simp only: list_all_iff)

subsection \<open>deductFromInventory: how much is taken\<close>

text \<open>
  C1, as amended. Take a required quantity \<open>q\<close> that is not negative, candidates whose
  quantities are not negative, \<open>n\<close> candidates in all, and an arithmetic with unit
  roundoff \<open>u\<close> and underflow error \<open>\<eta>\<close>, and a bound \<open>G\<close> on the factors that convert
  to the required unit. Write \<open>D\<close> for the deducted lines converted into the required
  unit and summed.

  When the round trip through every candidate's unit multiplies by at most \<open>P\<close>, with
  \<open>P\<close> at least 1, \<open>D\<close> is at most \<open>q * P * (1 + (n + 2) * u) + \<eta> * (2 * G + 1)\<close>. With
  \<open>P = 1\<close>, which allows a unit that lacks one of the two edges, \<open>D\<close> exceeds \<open>q\<close> by
  rounding error only.

  When every candidate's unit that converts to the required unit can be reached from it
  and the round trip multiplies by at least \<open>p\<close>, with \<open>p\<close> at most 1, \<open>D\<close> is at most the
  candidates' stock and at least the smaller of that stock and
  \<open>q * (p - (n + 1) * u) - \<eta> * (2 * G + 1)\<close>. With \<open>p = 1\<close> this is, up to rounding error,
  the smaller of \<open>q\<close> and the stock.

  When nothing rounds and every candidate's unit that converts to the required unit can
  be reached from it, with factors that are inverse to each other, \<open>D\<close> is the smaller
  of \<open>q\<close> and the stock.
\<close>

theorem deduct_total_satisfiable:
  assumes "sort_permutes srt" and "rounding_model ar u \<eta>" and "0 \<le> G" and "0 \<le> q"
    and "\<forall>r\<in>set inventory. is_candidate uid ing r \<longrightarrow> 0 \<le> quantity r"
  shows
    "(1 \<le> P \<and>
      (\<forall>r\<in>set inventory. is_candidate uid ing r \<and> measurementId r \<noteq> R \<longrightarrow>
         round_trip_at_most ms R P G (measurementId r)) \<longrightarrow>
        0 \<le> deducted_in_required ar R ms
               (deducted (deductFromInventory ar srt ing R q inventory ms uid)) \<and>
        deducted_in_required ar R ms
            (deducted (deductFromInventory ar srt ing R q inventory ms uid))
          \<le> q * (P * (1 + (real (length (filter (is_candidate uid ing) inventory)) + 2) * u))
              + \<eta> * (2 * G + 1)) \<and>
     (0 \<le> p \<and> p \<le> 1 \<and>
      (\<forall>r\<in>set inventory. is_candidate uid ing r \<and> measurementId r \<noteq> R \<longrightarrow>
         round_trip_at_least ms R p G (measurementId r)) \<longrightarrow>
        deducted_in_required ar R ms
            (deducted (deductFromInventory ar srt ing R q inventory ms uid))
          \<le> candidate_stock ar uid ing R inventory ms \<and>
        min (candidate_stock ar uid ing R inventory ms)
            (q * (p - (real (length (filter (is_candidate uid ing) inventory)) + 1) * u)
               - \<eta> * (2 * G + 1))
          \<le> deducted_in_required ar R ms
               (deducted (deductFromInventory ar srt ing R q inventory ms uid))) \<and>
     (u = 0 \<and> \<eta> = 0 \<and>
      (\<forall>r\<in>set inventory. is_candidate uid ing r \<and> measurementId r \<noteq> R \<longrightarrow>
         round_trip_at_most ms R 1 G (measurementId r) \<and>
         round_trip_at_least ms R 1 G (measurementId r)) \<longrightarrow>
        deducted_in_required ar R ms
            (deducted (deductFromInventory ar srt ing R q inventory ms uid))
          = min q (candidate_stock ar uid ing R inventory ms))"
proof (intro conjI impI)
  let ?xs = "sortedItems srt ing R inventory uid"
  note D = deducted_in_required_takes[of ar R ms srt ing q inventory uid]
  note len = sortedItems_length[OF assms(1), of ing R inventory uid, symmetric]
  note W = sortedItems_worth[OF assms(1), of ar R ms ing inventory uid, symmetric]
  {
    assume h: "1 \<le> P \<and>
      (\<forall>r\<in>set inventory. is_candidate uid ing r \<and> measurementId r \<noteq> R \<longrightarrow>
         round_trip_at_most ms R P G (measurementId r))"
    have ok: "\<forall>x\<in>set ?xs. 0 \<le> quantity (fst x) \<and>
               (measurementId (fst x) \<noteq> R \<longrightarrow>
                  round_trip_at_most ms R P G (measurementId (fst x)))"
      using sortedItems_candidates[OF assms(1)] assms(5) h by blast
    have P: "1 \<le> P" using h by simp
    note b = taken_upper[OF assms(2) assms(3) P ok assms(4)]
    show "0 \<le> deducted_in_required ar R ms
               (deducted (deductFromInventory ar srt ing R q inventory ms uid))"
      unfolding D using b by simp
    show "deducted_in_required ar R ms
            (deducted (deductFromInventory ar srt ing R q inventory ms uid))
          \<le> q * (P * (1 + (real (length (filter (is_candidate uid ing) inventory)) + 2) * u))
              + \<eta> * (2 * G + 1)"
      unfolding D len using b by simp
  }
  {
    assume h: "0 \<le> p \<and> p \<le> 1 \<and>
      (\<forall>r\<in>set inventory. is_candidate uid ing r \<and> measurementId r \<noteq> R \<longrightarrow>
         round_trip_at_least ms R p G (measurementId r))"
    have ok: "\<forall>x\<in>set ?xs. 0 \<le> quantity (fst x) \<and>
               (measurementId (fst x) \<noteq> R \<longrightarrow>
                  round_trip_at_least ms R p G (measurementId (fst x)))"
      using sortedItems_candidates[OF assms(1)] assms(5) h by blast
    have p: "0 \<le> p" "p \<le> 1" using h by simp_all
    note b = taken_lower[OF assms(2) assms(3) p ok assms(4)]
    show "deducted_in_required ar R ms
            (deducted (deductFromInventory ar srt ing R q inventory ms uid))
          \<le> candidate_stock ar uid ing R inventory ms"
      unfolding D W using b by simp
    show "min (candidate_stock ar uid ing R inventory ms)
            (q * (p - (real (length (filter (is_candidate uid ing) inventory)) + 1) * u)
               - \<eta> * (2 * G + 1))
          \<le> deducted_in_required ar R ms
               (deducted (deductFromInventory ar srt ing R q inventory ms uid))"
      unfolding D W len using b by simp
  }
  {
    assume h: "u = 0 \<and> \<eta> = 0 \<and>
      (\<forall>r\<in>set inventory. is_candidate uid ing r \<and> measurementId r \<noteq> R \<longrightarrow>
         round_trip_at_most ms R 1 G (measurementId r) \<and>
         round_trip_at_least ms R 1 G (measurementId r))"
    have ok1: "\<forall>x\<in>set ?xs. 0 \<le> quantity (fst x) \<and>
               (measurementId (fst x) \<noteq> R \<longrightarrow>
                  round_trip_at_most ms R 1 G (measurementId (fst x)))"
      using sortedItems_candidates[OF assms(1)] assms(5) h by blast
    have ok2: "\<forall>x\<in>set ?xs. 0 \<le> quantity (fst x) \<and>
               (measurementId (fst x) \<noteq> R \<longrightarrow>
                  round_trip_at_least ms R 1 G (measurementId (fst x)))"
      using sortedItems_candidates[OF assms(1)] assms(5) h by blast
    have one: "(1::real) \<le> 1" "(0::real) \<le> 1" by simp_all
    have "taken_in_required ar R ms ?xs q \<le> q"
      using taken_upper[OF assms(2) assms(3) one(1) ok1 assms(4)] h by simp
    moreover have "taken_in_required ar R ms ?xs q
                     \<le> sum_list (map (\<lambda>x. worth ar R ms (fst x)) ?xs)"
      "min (sum_list (map (\<lambda>x. worth ar R ms (fst x)) ?xs)) q
         \<le> taken_in_required ar R ms ?xs q"
      using taken_lower[OF assms(2) assms(3) one(2) one(1) ok2 assms(4)] h by simp_all
    ultimately show "deducted_in_required ar R ms
            (deducted (deductFromInventory ar srt ing R q inventory ms uid))
          = min q (candidate_stock ar uid ing R inventory ms)"
      unfolding D W by linarith
  }
qed

text \<open>
  A run in which nothing rounds: 5/2 cups from 4097/2048 cups, 3 pieces and 65/8
  tablespoons. The stock is 5137/2048 cups; the lines are 4097/2048 cups and 1023/128
  tablespoons, which are 5/2 cups. The same run in the arithmetic \<open>biased_arith\<close> with
  \<open>u = 1 / 1024\<close>: the lines are worth more than 5/2 cups, by less than the bound
  allows.
\<close>

theorem deduct_total_satisfiable_witness:
  "deducted_in_required exact_arith ''cup'' kitchen_units
     (deducted (deductFromInventory exact_arith sort_by ''flour'' ''cup'' (5 / 2) ledger
        kitchen_units ''u1'')) \<le> 5 / 2 \<and>
   min (candidate_stock exact_arith ''u1'' ''flour'' ''cup'' ledger kitchen_units) (5 / 2)
     \<le> deducted_in_required exact_arith ''cup'' kitchen_units
         (deducted (deductFromInventory exact_arith sort_by ''flour'' ''cup'' (5 / 2) ledger
            kitchen_units ''u1'')) \<and>
   deducted_in_required exact_arith ''cup'' kitchen_units
     (deducted (deductFromInventory exact_arith sort_by ''flour'' ''cup'' (5 / 2) ledger
        kitchen_units ''u1''))
     = min (5 / 2) (candidate_stock exact_arith ''u1'' ''flour'' ''cup'' ledger kitchen_units) \<and>
   candidate_stock exact_arith ''u1'' ''flour'' ''cup'' ledger kitchen_units = 5137 / 2048 \<and>
   deducted (deductFromInventory exact_arith sort_by ''flour'' ''cup'' (5 / 2) ledger
      kitchen_units ''u1'') = [(''cup'', 4097 / 2048), (''tbsp'', 1023 / 128)] \<and>
   5 / 2 < deducted_in_required (biased_arith (1 / 1024)) ''cup'' kitchen_units
     (deducted (deductFromInventory (biased_arith (1 / 1024)) sort_by ''flour'' ''cup'' (5 / 2)
        ledger kitchen_units ''u1'')) \<and>
   deducted_in_required (biased_arith (1 / 1024)) ''cup'' kitchen_units
     (deducted (deductFromInventory (biased_arith (1 / 1024)) sort_by ''flour'' ''cup'' (5 / 2)
        ledger kitchen_units ''u1'')) \<le> 5 / 2 * (1 + 5 / 1024) \<and>
   min (candidate_stock (biased_arith (1 / 1024)) ''u1'' ''flour'' ''cup'' ledger kitchen_units)
       (5 / 2 * (1 - 4 / 1024))
     \<le> deducted_in_required (biased_arith (1 / 1024)) ''cup'' kitchen_units
         (deducted (deductFromInventory (biased_arith (1 / 1024)) sort_by ''flour'' ''cup''
            (5 / 2) ledger kitchen_units ''u1''))"
proof -
  have nonneg: "\<forall>r\<in>set ledger. is_candidate ''u1'' ''flour'' r \<longrightarrow> 0 \<le> quantity r"
    by (simp add: ledger_def is_candidate_def)
  have most: "1 \<le> (1::real) \<and>
      (\<forall>r\<in>set ledger. is_candidate ''u1'' ''flour'' r \<and> measurementId r \<noteq> ''cup'' \<longrightarrow>
         round_trip_at_most kitchen_units ''cup'' 1 1 (measurementId r))"
    by (simp add: ledger_def is_candidate_def round_trip_at_most_def direct_factor_def
        kitchen_units_def)
  have least: "0 \<le> (1::real) \<and> (1::real) \<le> 1 \<and>
      (\<forall>r\<in>set ledger. is_candidate ''u1'' ''flour'' r \<and> measurementId r \<noteq> ''cup'' \<longrightarrow>
         round_trip_at_least kitchen_units ''cup'' 1 1 (measurementId r))"
    by (simp add: ledger_def is_candidate_def round_trip_at_least_def direct_factor_def
        kitchen_units_def)
  have g0: "(0::real) \<le> 1" and q0: "(0::real) \<le> 5 / 2" by simp_all
  have n: "real (length (filter (is_candidate ''u1'' ''flour'') ledger)) = 3"
    by (simp add: ledger_def is_candidate_def)
  note main = deduct_total_satisfiable[where srt = sort_by and ar = exact_arith and u = 0
      and \<eta> = 0 and G = 1 and q = "5 / 2" and inventory = ledger and uid = "''u1''"
      and ing = "''flour''" and P = 1 and p = 1 and ms = kitchen_units and R = "''cup''",
      OF sort_by_permutes exact_rounding_model g0 q0 nonneg]
  have upper: "deducted_in_required exact_arith ''cup'' kitchen_units
     (deducted (deductFromInventory exact_arith sort_by ''flour'' ''cup'' (5 / 2) ledger
        kitchen_units ''u1'')) \<le> 5 / 2"
    using main[THEN conjunct1, THEN mp, OF most] by simp
  have lower: "min (candidate_stock exact_arith ''u1'' ''flour'' ''cup'' ledger kitchen_units) (5 / 2)
     \<le> deducted_in_required exact_arith ''cup'' kitchen_units
         (deducted (deductFromInventory exact_arith sort_by ''flour'' ''cup'' (5 / 2) ledger
            kitchen_units ''u1''))"
    using main[THEN conjunct2, THEN conjunct1, THEN mp, OF least] by simp
  have both: "(0::real) = 0 \<and> (0::real) = 0 \<and>
      (\<forall>r\<in>set ledger. is_candidate ''u1'' ''flour'' r \<and> measurementId r \<noteq> ''cup'' \<longrightarrow>
         round_trip_at_most kitchen_units ''cup'' 1 1 (measurementId r) \<and>
         round_trip_at_least kitchen_units ''cup'' 1 1 (measurementId r))"
    using most least by simp
  have equal: "deducted_in_required exact_arith ''cup'' kitchen_units
     (deducted (deductFromInventory exact_arith sort_by ''flour'' ''cup'' (5 / 2) ledger
        kitchen_units ''u1''))
     = min (5 / 2) (candidate_stock exact_arith ''u1'' ''flour'' ''cup'' ledger kitchen_units)"
    by (rule main[THEN conjunct2, THEN conjunct2, THEN mp, OF both])
  have stock: "candidate_stock exact_arith ''u1'' ''flour'' ''cup'' ledger kitchen_units
      = 5137 / 2048"
    by (simp add: candidate_stock_def is_candidate_def ledger_def kitchen_units_def
        convertMeasurement_def exact_arith_def List.map_filter_simps)
  have lines: "deducted (deductFromInventory exact_arith sort_by ''flour'' ''cup'' (5 / 2) ledger
      kitchen_units ''u1'') = [(''cup'', 4097 / 2048), (''tbsp'', 1023 / 128)]"
    by (simp add: run_defs ledger_def kitchen_units_def upt_rec Let_def)
  have rm: "rounding_model (biased_arith (1 / 1024)) (1 / 1024) 0"
    by (rule biased_rounding_model) simp_all
  note rounded = deduct_total_satisfiable[where srt = sort_by
      and ar = "biased_arith (1 / 1024)" and u = "1 / 1024"
      and \<eta> = 0 and G = 1 and q = "5 / 2" and inventory = ledger and uid = "''u1''"
      and ing = "''flour''" and P = 1 and p = 1 and ms = kitchen_units and R = "''cup''",
      OF sort_by_permutes rm g0 q0 nonneg]
  have above: "5 / 2 < deducted_in_required (biased_arith (1 / 1024)) ''cup'' kitchen_units
     (deducted (deductFromInventory (biased_arith (1 / 1024)) sort_by ''flour'' ''cup'' (5 / 2)
        ledger kitchen_units ''u1''))"
    by (simp add: deductFromInventory_def deduct_final_def sortedItems_def relevantItems_def
        sort_by_def compareItems_def convertMeasurement_def threshold_def biased_arith_def
        deducted_in_required_def ledger_def kitchen_units_def upt_rec Let_def
        List.map_filter_simps)
  have upper': "deducted_in_required (biased_arith (1 / 1024)) ''cup'' kitchen_units
     (deducted (deductFromInventory (biased_arith (1 / 1024)) sort_by ''flour'' ''cup'' (5 / 2)
        ledger kitchen_units ''u1'')) \<le> 5 / 2 * (1 + 5 / 1024)"
    using rounded[THEN conjunct1, THEN mp, OF most] unfolding n by simp
  have lower': "min (candidate_stock (biased_arith (1 / 1024)) ''u1'' ''flour'' ''cup'' ledger
          kitchen_units) (5 / 2 * (1 - 4 / 1024))
     \<le> deducted_in_required (biased_arith (1 / 1024)) ''cup'' kitchen_units
         (deducted (deductFromInventory (biased_arith (1 / 1024)) sort_by ''flour'' ''cup''
            (5 / 2) ledger kitchen_units ''u1''))"
    using rounded[THEN conjunct2, THEN conjunct1, THEN mp, OF least] unfolding n by simp
  show ?thesis using upper lower equal stock lines above upper' lower' by (intro conjI)
qed

text \<open>
  C1 as stated fails where the factors of the two directions are not inverse to each
  other. With cup \<rightarrow> mug at factor 2 and mug \<rightarrow> cup at factor 1, a deduction of 1 cup from
  10 mugs takes 2 mugs, which are 2 cups: twice the required quantity. With cup \<rightarrow> mug at
  factor 1 and mug \<rightarrow> cup at factor 1/2, a deduction of 1 cup from 10 mugs takes 1 mug,
  which is half a cup, although the 10 mugs are 5 cups. With tablespoon \<rightarrow> cup only, 16
  tablespoons count as 1 cup of stock, and a deduction of half a cup takes nothing.
\<close>

theorem deduct_total_satisfiable_counterexample:
  "deducted_in_required exact_arith ''cup'' skewed_units
     (deducted (deductFromInventory exact_arith sort_by ''flour'' ''cup'' 1 crate
        skewed_units ''u1'')) = 2 \<and>
   deducted_in_required exact_arith ''cup'' lossy_units
     (deducted (deductFromInventory exact_arith sort_by ''flour'' ''cup'' 1 crate
        lossy_units ''u1'')) = 1 / 2 \<and>
   candidate_stock exact_arith ''u1'' ''flour'' ''cup'' crate lossy_units = 5 \<and>
   deducted_in_required exact_arith ''cup'' one_way_units
     (deducted (deductFromInventory exact_arith sort_by ''flour'' ''cup'' (1 / 2) jar
        one_way_units ''u1'')) = 0 \<and>
   candidate_stock exact_arith ''u1'' ''flour'' ''cup'' jar one_way_units = 1"
  by (simp add: run_defs deducted_in_required_def candidate_stock_def is_candidate_def
      crate_def jar_def skewed_units_def lossy_units_def one_way_units_def upt_rec Let_def
      List.map_filter_simps)

end
